theory Spec2Isabelle
  imports Complex_Main "HOL-Library.Word" "HOL-Library.Multiset" "HOL-Library.Char_ord"
    "HOL-Library.List_Lexorder"
begin

unbundle bit_operations_syntax

section \<open>Python strings\<close>

text \<open>
  A Python \<open>str\<close> is modelled as a \<open>string\<close> whose characters are the code points
  0 to 255. Comparison of strings is lexicographic on code points, as in Python, so
  \<open>sorted\<close> is \<open>sort\<close> on \<open>string list\<close>.
\<close>

datatype error = UnicodeEncodeError | IndexError | AttributeError | RuntimeError
  | ProgrammingError | AssertionError | KeyError | FieldError

text \<open>\<open>s.encode("ascii")\<close> succeeds exactly when every code point is below 128.\<close>

definition is_ascii :: "string \<Rightarrow> bool" where
  "is_ascii s = list_all (\<lambda>c. of_char c < (128::nat)) s"

text \<open>
  \<open>s.replace(old, new)\<close>: occurrences are found from the left and do not overlap; an
  empty \<open>old\<close> matches before every character and at the end.
\<close>

function replace_py :: "string \<Rightarrow> string \<Rightarrow> string \<Rightarrow> string" where
  "replace_py old new s =
     (if old = [] then new @ concat (map (\<lambda>c. c # new) s)
      else if s = [] then []
      else if take (length old) s = old then new @ replace_py old new (drop (length old) s)
      else hd s # replace_py old new (tl s))"
  by pat_completeness auto
termination
  by (relation "measure (\<lambda>(old, new, s). length s)") auto

declare replace_py.simps [simp del]

text \<open>\<open>sep.join(xs)\<close>.\<close>

fun join_py :: "string \<Rightarrow> string list \<Rightarrow> string" where
  "join_py sep [] = []"
| "join_py sep [x] = x"
| "join_py sep (x # y # ys) = x @ sep @ join_py sep (y # ys)"

section \<open>MD5 (\<open>hashlib.md5(...).hexdigest()\<close>)\<close>

type_synonym u32 = "32 word"
type_synonym byte = "8 word"

definition md5_K :: "u32 list" where
  "md5_K = [0xd76aa478, 0xe8c7b756, 0x242070db, 0xc1bdceee, 0xf57c0faf, 0x4787c62a,
     0xa8304613, 0xfd469501, 0x698098d8, 0x8b44f7af, 0xffff5bb1, 0x895cd7be, 0x6b901122,
     0xfd987193, 0xa679438e, 0x49b40821, 0xf61e2562, 0xc040b340, 0x265e5a51, 0xe9b6c7aa,
     0xd62f105d, 0x2441453, 0xd8a1e681, 0xe7d3fbc8, 0x21e1cde6, 0xc33707d6, 0xf4d50d87,
     0x455a14ed, 0xa9e3e905, 0xfcefa3f8, 0x676f02d9, 0x8d2a4c8a, 0xfffa3942, 0x8771f681,
     0x6d9d6122, 0xfde5380c, 0xa4beea44, 0x4bdecfa9, 0xf6bb4b60, 0xbebfbc70, 0x289b7ec6,
     0xeaa127fa, 0xd4ef3085, 0x4881d05, 0xd9d4d039, 0xe6db99e5, 0x1fa27cf8, 0xc4ac5665,
     0xf4292244, 0x432aff97, 0xab9423a7, 0xfc93a039, 0x655b59c3, 0x8f0ccc92, 0xffeff47d,
     0x85845dd1, 0x6fa87e4f, 0xfe2ce6e0, 0xa3014314, 0x4e0811a1, 0xf7537e82, 0xbd3af235,
     0x2ad7d2bb, 0xeb86d391]"

definition md5_s :: "nat list" where
  "md5_s = [7, 12, 17, 22, 7, 12, 17, 22, 7, 12, 17, 22, 7, 12, 17, 22,
            5, 9, 14, 20, 5, 9, 14, 20, 5, 9, 14, 20, 5, 9, 14, 20,
            4, 11, 16, 23, 4, 11, 16, 23, 4, 11, 16, 23, 4, 11, 16, 23,
            6, 10, 15, 21, 6, 10, 15, 21, 6, 10, 15, 21, 6, 10, 15, 21]"

definition leftrotate :: "u32 \<Rightarrow> nat \<Rightarrow> u32" where
  "leftrotate x c = push_bit c x OR drop_bit (32 - c) x"

definition le_bytes :: "nat \<Rightarrow> nat \<Rightarrow> byte list" where
  "le_bytes k v = map (\<lambda>i. of_nat (v div 256 ^ i)) [0..<k]"

definition md5_pad :: "byte list \<Rightarrow> byte list" where
  "md5_pad msg = msg @ [0x80] @ replicate ((119 - length msg mod 64) mod 64) 0
                   @ le_bytes 8 (8 * length msg)"

fun le_words :: "byte list \<Rightarrow> u32 list" where
  "le_words (a # b # c # d # rest) =
     (ucast a OR push_bit 8 (ucast b) OR push_bit 16 (ucast c) OR push_bit 24 (ucast d))
       # le_words rest"
| "le_words _ = []"

fun md5_step :: "u32 list \<Rightarrow> u32 \<times> u32 \<times> u32 \<times> u32 \<Rightarrow> nat \<Rightarrow> u32 \<times> u32 \<times> u32 \<times> u32" where
  "md5_step M (A, B, C, D) i =
     (let F = (if i < 16 then (B AND C) OR (NOT B AND D)
               else if i < 32 then (D AND B) OR (NOT D AND C)
               else if i < 48 then B XOR C XOR D
               else C XOR (B OR NOT D));
          g = (if i < 16 then i
               else if i < 32 then (5 * i + 1) mod 16
               else if i < 48 then (3 * i + 5) mod 16
               else (7 * i) mod 16);
          F' = F + A + md5_K ! i + M ! g
      in (D, B + leftrotate F' (md5_s ! i), B, C))"

fun md5_chunk :: "u32 \<times> u32 \<times> u32 \<times> u32 \<Rightarrow> u32 list \<Rightarrow> u32 \<times> u32 \<times> u32 \<times> u32" where
  "md5_chunk (a0, b0, c0, d0) M =
     (case fold (\<lambda>i st. md5_step M st i) [0..<64] (a0, b0, c0, d0) of
        (A, B, C, D) \<Rightarrow> (a0 + A, b0 + B, c0 + C, d0 + D))"

fun chunks :: "nat \<Rightarrow> 'a list \<Rightarrow> 'a list list" where
  "chunks 0 xs = []"
| "chunks n [] = []"
| "chunks n xs = take n xs # chunks n (drop n xs)"

definition md5_digest :: "byte list \<Rightarrow> byte list" where
  "md5_digest msg =
     (case fold (\<lambda>M st. md5_chunk st M) (chunks 16 (le_words (md5_pad msg)))
             (0x67452301, 0xefcdab89, 0x98badcfe, 0x10325476) of
        (a, b, c, d) \<Rightarrow> concat (map (\<lambda>w. le_bytes 4 (unat w)) [a, b, c, d]))"

definition hex_digit :: "nat \<Rightarrow> char" where
  "hex_digit n = ''0123456789abcdef'' ! n"

definition hexdigest :: "byte list \<Rightarrow> string" where
  "hexdigest bs = concat (map (\<lambda>b. [hex_digit (unat b div 16), hex_digit (unat b mod 16)]) bs)"

definition md5_hexdigest :: "string \<Rightarrow> string" where
  "md5_hexdigest s = hexdigest (md5_digest (map (\<lambda>c. of_nat (of_char c)) s))"

section \<open>Index names (\<open>make_index_name\<close>)\<close>

text \<open>
  Line 28 hashes first, so a code point that ASCII cannot encode raises before the
  empty \<open>index_type\<close> is indexed on line 30. \<open>idx_hash[-12:]\<close> is the last 12
  characters (the whole string when it is shorter).
\<close>

definition make_index_name :: "string \<Rightarrow> string \<Rightarrow> string list \<Rightarrow> error + string" where
  "make_index_name tablename index_type fields =
     (let text = tablename @ '' '' @ index_type @ '' '' @ join_py '', '' (sort fields)
      in if \<not> is_ascii text then Inl UnicodeEncodeError
         else
           let idx_hash = md5_hexdigest text;
               tablename' = take 12 (replace_py ''-'' '''' (replace_py ''data_'' '''' tablename))
           in case index_type of
                [] \<Rightarrow> Inl IndexError
              | c # _ \<Rightarrow>
                  Inr (''idx_'' @ tablename' @ ''_'' @ [c]
                         @ drop (length idx_hash - 12) idx_hash))"

text \<open>
  The format as the specification words it: the hashed text joins the sorted field names
  with single spaces, a leading \<open>data_\<close> prefix is stripped, hyphens are removed, the
  name is capped at 12 characters, and the three parts follow \<open>idx_\<close> directly.
\<close>

definition spec_make_index_name :: "string \<Rightarrow> string \<Rightarrow> string list \<Rightarrow> string" where
  "spec_make_index_name tablename index_type fields =
     (let idx_hash = md5_hexdigest
            (tablename @ '' '' @ index_type @ '' '' @ join_py '' '' (sort fields));
          stripped = (if take 5 tablename = ''data_'' then drop 5 tablename else tablename);
          truncated = take 12 (filter (\<lambda>c. c \<noteq> CHR ''-'') stripped)
      in ''idx_'' @ truncated @ take 1 index_type @ drop (length idx_hash - 12) idx_hash)"

section \<open>More of Python's \<open>str\<close> and \<open>dict\<close>\<close>

text \<open>
  \<open>d[k] = v\<close> on a dictionary kept as the list of its items in insertion order: a key
  already there keeps its place and gets the new value, a new key goes to the end.
\<close>

fun dict_set :: "'k \<Rightarrow> 'v \<Rightarrow> ('k \<times> 'v) list \<Rightarrow> ('k \<times> 'v) list" where
  "dict_set k v [] = [(k, v)]"
| "dict_set k v (p # ps) = (if fst p = k then (k, v) # ps else p # dict_set k v ps)"

text \<open>
  \<open>str.isspace\<close> on the code points 0 to 255: tab, line feed, vertical tab, form feed,
  carriage return, the four separators 28 to 31, space, NEL (133) and the no-break
  space (160). \<open>s.split()\<close> cuts at runs of such characters and yields no empty word;
  \<open>s.strip()\<close> removes them at both ends; \<open>s.lower()\<close> maps A to Z and the
  upper-case letters 192 to 222 (but the multiplication sign 215) 32 places up.
\<close>

definition is_space :: "char \<Rightarrow> bool" where
  "is_space c = (of_char c \<in> {9, 10, 11, 12, 13, 28, 29, 30, 31, 32, 133, 160 :: nat})"

fun split_aux :: "string \<Rightarrow> string \<Rightarrow> string list" where
  "split_aux [] cur = (if cur = [] then [] else [rev cur])"
| "split_aux (c # cs) cur =
     (if is_space c then (if cur = [] then split_aux cs [] else rev cur # split_aux cs [])
      else split_aux cs (c # cur))"

definition split_py :: "string \<Rightarrow> string list" where
  "split_py s = split_aux s []"

definition strip_py :: "string \<Rightarrow> string" where
  "strip_py s = rev (dropWhile is_space (rev (dropWhile is_space s)))"

definition lower_char :: "char \<Rightarrow> char" where
  "lower_char c =
     (let n = (of_char c :: nat)
      in if (65 \<le> n \<and> n \<le> 90) \<or> (192 \<le> n \<and> n \<le> 222 \<and> n \<noteq> 215)
         then char_of (n + 32) else c)"

definition lower_py :: "string \<Rightarrow> string" where
  "lower_py s = map lower_char s"

section \<open>Query sets of a dataset table (\<open>DatasetTableModelQuerySet\<close>)\<close>

text \<open>
  \<open>dyn_model\<close> is the generated model class as the query set uses it: its physical
  table name and the three lists of \<open>Model.extra\<close>. A query set carries what the
  methods here read and write of Django's query: the annotations, the children of the
  \<open>where\<close> node, the \<open>order_by\<close> tuple, and the attribute \<open>_count\<close>.

\<close>

datatype search_query = SearchQuery string string | SearchAnd search_query search_query

datatype expr = SearchRank "search_query option"

datatype lookup = SearchData "search_query option" | FieldLookup string string

record dyn_model =
  db_table :: string
  extra_search :: "string list"
  extra_ordering :: "string list"
  extra_filtering :: "string list"

record queryset =
  model :: dyn_model
  annotations :: "(string \<times> expr) list"
  where_children :: "lookup list"
  order_by :: "string list"
  count_cache :: "int option"

text \<open>
  \<open>annotate(alias=e)\<close> stores \<open>e\<close> under \<open>alias\<close> in the dictionary of annotations:
  an alias already there keeps its place and gets the new expression.
\<close>

definition annotate :: "string \<Rightarrow> expr \<Rightarrow> (string \<times> expr) list \<Rightarrow> (string \<times> expr) list" where
  "annotate alias e anns = dict_set alias e anns"

text \<open>
  \<open>query.add_ordering(*items)\<close> of Django (up to 3.0): every item must match
  \<open>ORDER_PATTERN\<close>, an optional sign followed by one or more letters, digits,
  underscores or dots up to the end of the string or to a final line feed (or a string
  that starts with a question mark); if one item does not, \<open>FieldError\<close> is raised and
  nothing is appended; otherwise the items are appended to \<open>order_by\<close>.
\<close>

definition is_word_char :: "char \<Rightarrow> bool" where
  "is_word_char c =
     (let n = (of_char c :: nat)
      in (48 \<le> n \<and> n \<le> 57) \<or> (65 \<le> n \<and> n \<le> 90) \<or> n = 95 \<or> (97 \<le> n \<and> n \<le> 122)
         \<or> n \<in> {170, 178, 179, 181, 185, 186, 188, 189, 190}
         \<or> (192 \<le> n \<and> n \<le> 214) \<or> (216 \<le> n \<and> n \<le> 246) \<or> 248 \<le> n)"

definition order_pattern_match :: "string \<Rightarrow> bool" where
  "order_pattern_match item =
     (case item of
        [] \<Rightarrow> False
      | c # cs \<Rightarrow>
          if c = CHR ''?'' then True
          else
            let body = (if c = CHR ''-'' \<or> c = CHR ''+'' then cs else item);
                body' = (if body \<noteq> [] \<and> last body = CHR 0x0A then butlast body else body)
            in body' \<noteq> [] \<and> list_all (\<lambda>x. is_word_char x \<or> x = CHR ''.'') body')"

definition add_ordering :: "string list \<Rightarrow> queryset \<Rightarrow> error + queryset" where
  "add_ordering items qs =
     (if list_all order_pattern_match items then Inr (qs\<lparr>order_by := order_by qs @ items\<rparr>)
      else Inl FieldError)"

definition config :: string where

  "config = ''pg_catalog.portuguese''"

text \<open>The loop of \<open>search\<close> (lines 74 to 81) over the words in iteration order.\<close>

fun and_words :: "string list \<Rightarrow> search_query option \<Rightarrow> search_query option" where
  "and_words [] query = query"
| "and_words (word # rest) query =
     (if word = [] then and_words rest query
      else and_words rest
             (case query of
                None \<Rightarrow> Some (SearchQuery word config)
              | Some q \<Rightarrow> Some (SearchAnd q (SearchQuery word config))))"

text \<open>
  \<open>search\<close>. Python does not fix the order in which \<open>set(words)\<close> is iterated, so the
  order is the parameter \<open>set_iter\<close>: a function that lists each element of its
  argument once. \<open>annotate\<close> and \<open>filter\<close> return a clone, which has no \<open>_count\<close>;
  the other branch returns \<open>self\<close> itself. The item \<open>-search_rank\<close> of line 85
  matches \<open>ORDER_PATTERN\<close> (lemma \<open>add_ordering_search_rank\<close> below), so that call
  of \<open>add_ordering\<close> is an append.

\<close>

definition valid_set_iter :: "(string list \<Rightarrow> string list) \<Rightarrow> bool" where
  "valid_set_iter set_iter \<longleftrightarrow> (\<forall>ws. distinct (set_iter ws) \<and> set (set_iter ws) = set ws)"

definition search :: "(string list \<Rightarrow> string list) \<Rightarrow> queryset \<Rightarrow> string \<Rightarrow> queryset" where
  "search set_iter self search_query =
     (if search_query \<noteq> [] \<and> extra_search (model self) \<noteq> [] then
        let words = split_py search_query;
            query = and_words (set_iter words) None;
            qs = self\<lparr>annotations :=
                        annotate ''search_rank'' (SearchRank query) (annotations self),

                      where_children := where_children self @ [SearchData query],
                      count_cache := None\<rparr>
        in qs\<lparr>order_by := order_by qs @ [''-search_rank'']\<rparr>
      else self)"

text \<open>
  \<open>apply_ordering\<close> (lines 95 to 110); it changes the query of \<open>self\<close> in place,
  or raises what \<open>add_ordering\<close> raises.
\<close>

definition apply_ordering :: "queryset \<Rightarrow> string list \<Rightarrow> error + queryset" where
  "apply_ordering self query =
     (let model_ordering = extra_ordering (model self);
          model_filtering = extra_filtering (model self);
          allowed_fields = remdups (model_ordering @ model_filtering);
          clean_allowed =
            map (\<lambda>field. lower_py (strip_py (replace_py ''-'' '''' field))) allowed_fields;
          ordering_query =
            filter (\<lambda>field. replace_py ''-'' '''' field \<in> set clean_allowed) query
      in if ordering_query \<noteq> [] then add_ordering ordering_query self
         else if model_ordering \<noteq> [] then add_ordering model_ordering self
         else Inr self)"

text \<open>
  \<open>count\<close> (lines 132 to 149), here \<open>count_qs\<close>. \<open>stat\<close> is what the read of \<open>pg_class.reltuples\<close> does:
  it raises, it finds no row (\<open>fetchone()\<close> is \<open>None\<close>, and indexing it raises), or it
  yields a float; \<open>int\<close> of a finite float truncates towards zero and raises on
  infinity or NaN. \<open>exact\<close> is what \<open>super().count()\<close> returns. The result is the
  returned number and the query set with \<open>_count\<close> set.
\<close>

datatype pyfloat = Finite real | NonFinite

datatype stat_read = StatRaises | StatNoRow | StatRow pyfloat

definition py_int :: "real \<Rightarrow> int" where
  "py_int x = (if 0 \<le> x then \<lfloor>x\<rfloor> else \<lceil>x\<rceil>)"

definition count_qs :: "stat_read \<Rightarrow> int \<Rightarrow> queryset \<Rightarrow> int \<times> queryset" where
  "count_qs stat exact self =
     (case count_cache self of
        Some c \<Rightarrow> (c, self)
      | None \<Rightarrow>
          if where_children self = [] then
            (case stat of
               StatRow (Finite x) \<Rightarrow> (py_int x, self\<lparr>count_cache := Some (py_int x)\<rparr>)
             | _ \<Rightarrow> (exact, self\<lparr>count_cache := Some exact\<rparr>))
          else (exact, self\<lparr>count_cache := Some exact\<rparr>))"

text \<open>
  The table of the examples below: \<open>people\<close> declares a search field, the ordering
  \<open>name\<close> and the filtering field \<open>age\<close>.
\<close>

definition people_qs :: queryset where
  "people_qs =
     \<lparr>model = \<lparr>db_table = ''data_people'', extra_search = [''name''],
                extra_ordering = [''name''], extra_filtering = [''age'']\<rparr>,
      annotations = [], where_children = [], order_by = [], count_cache = None\<rparr>"

section \<open>Logical tables and physical generations\<close>

text \<open>
  A logical \<open>Table\<close> with what \<open>get_model\<close> reads of it: its key, the slug of its
  dataset, its name, the three declared lists (\<open>filtering\<close> and \<open>search\<close> may be
  null) and its \<open>Field\<close> rows in order; of a field, its name, type and nullability
  (its options go to the column constructor). A \<open>DataTable\<close> object as Python holds it:
  \<open>pk\<close> is \<open>None\<close> until the object is saved, \<open>table\<close> is the related logical table
  (\<open>None\<close> for a null foreign key), \<open>table_id\<close> its key.
\<close>

record Field =
  field_name :: string
  field_type :: string
  field_null :: bool

record Table =
  table_pk :: nat
  dataset_slug :: string
  table_name :: string
  table_ordering :: "string list"
  table_filtering :: "string list option"
  table_search :: "string list option"
  table_fields :: "Field list"

record DataTable =
  pk :: "nat option"
  created_at :: nat
  table :: "Table option"
  db_table_name :: string
  active :: bool

definition table_id :: "DataTable \<Rightarrow> nat option" where
  "table_id r = map_option table_pk (table r)"

text \<open>
  The database holds the stored generations, the set of physical tables that exist, the
  sequence of the primary key and the clock that \<open>auto_now_add\<close> reads. With it go
  the keys of the module constant \<open>FIELD_TYPES\<close>, the registered type names.
\<close>

record database =
  rows :: "DataTable list"
  physical :: "string set"
  next_pk :: nat
  now :: nat
  FIELD_TYPES :: "string list"

text \<open>
  A call returns a value and the database it leaves, or raises: an error and the
  database at the raise. Leaving \<open>with transaction.atomic()\<close> by an exception rolls
  the rows and the physical tables back to what they were on entry.
\<close>

type_synonym 'a result = "(error \<times> database) + ('a \<times> database)"

definition atomic :: "database \<Rightarrow> 'a result \<Rightarrow> 'a result" where
  "atomic s r =
     (case r of
        Inl (e, s') \<Rightarrow> Inl (e, s'\<lparr>rows := rows s, physical := physical s\<rparr>)
      | Inr x \<Rightarrow> Inr x)"

subsection \<open>\<open>Table.get_model\<close> (lines 311 to 374)\<close>

text \<open>
  The synthesized model class: its physical table and \<open>extra\<close> lists, its columns
  (name, type, nullability) and its indexes (name, fields).
\<close>

record model_class =
  meta :: dyn_model
  columns :: "(string \<times> string \<times> bool) list"
  indexes :: "(string \<times> string list) list"

text \<open>
  Modelled from the spec: \<open>FIELD_TYPES\<close> of \<open>core.dynamic_models\<close>, the field
  descriptor registry, which is not under src/. Its keys, the registered type names,
  are the parameter \<open>types\<close>; looking an unknown name up raises (the \<open>KeyError\<close> of
  the dictionary), a registered name gives the column for the options and nullability
  of the field. \<open>field_class\<close> is the property of lines 423 to 427.
\<close>

definition field_class :: "string list \<Rightarrow> Field \<Rightarrow> error + string \<times> bool" where
  "field_class types f =
     (if field_type f \<in> set types then Inr (field_type f, field_null f) else Inl KeyError)"

fun field_columns ::
  "string list \<Rightarrow> Field list \<Rightarrow> (string \<times> string \<times> bool) list
     \<Rightarrow> error + (string \<times> string \<times> bool) list" where
  "field_columns types [] acc = Inr acc"
| "field_columns types (f # fs) acc =
     (case field_class types f of
        Inl e \<Rightarrow> Inl e
      | Inr c \<Rightarrow> field_columns types fs (dict_set (field_name f) c acc))"

text \<open>
  Modelled from the spec: \<open>create_model_class\<close> of \<open>core.dynamic_models\<close>, which is not
  under src/. It builds the runtime type from the columns, the meta data and the
  managers it is given; the spec names no failure of synthesis but that of an
  unregistered field type, which \<open>field_class\<close> has raised before. The class has no
  \<open>extra\<close> yet.
\<close>

definition create_model_class ::
  "string \<Rightarrow> (string \<times> string \<times> bool) list \<Rightarrow> (string \<times> string list) list \<Rightarrow> model_class" where
  "create_model_class name cols idx =
     \<lparr>meta = \<lparr>db_table = name, extra_search = [], extra_ordering = [], extra_filtering = []\<rparr>,
      columns = cols, indexes = idx\<rparr>"

text \<open>
  An index of \<open>get_model\<close> with the name \<open>make_index_name\<close> gives it (a name of
  at most 30 characters that starts with a letter, which the constructor of Django's
  \<open>Index\<close> accepts); the dictionary comprehension of line 325 is \<open>field_columns\<close>
  above.
\<close>

definition make_index :: "string \<Rightarrow> string \<Rightarrow> string list \<Rightarrow> error + string \<times> string list" where
  "make_index name kind fs =
     (case make_index_name name kind fs of Inl e \<Rightarrow> Inl e | Inr n \<Rightarrow> Inr (n, fs))"

text \<open>The loop of lines 335 to 340 over the filtering fields.\<close>

fun filter_indexes ::
  "string \<Rightarrow> string list \<Rightarrow> string list \<Rightarrow> error + (string \<times> string list) list" where
  "filter_indexes name ordering_l [] = Inr []"
| "filter_indexes name ordering_l (fname # rest) =
     (if ordering_l = [fname] then filter_indexes name ordering_l rest
      else
        (case make_index name ''filter'' [fname] of
           Inl e \<Rightarrow> Inl e
         | Inr i \<Rightarrow>
             (case filter_indexes name ordering_l rest of
                Inl e \<Rightarrow> Inl e
              | Inr is \<Rightarrow> Inr (i # is))))"

text \<open>
  \<open>get_model\<close> as \<open>delete_data_table\<close> calls it: with \<open>cache=False\<close>, so the registry
  is not read, and with the generation given. The managers and mixins chosen on lines
  346 to 363 do not enter the columns, the indexes or the table name; the registry
  entry written on line 373 is process memory that nothing here reads.
\<close>

definition get_model :: "string list \<Rightarrow> Table \<Rightarrow> DataTable \<Rightarrow> error + model_class" where
  "get_model types self data_table =
     (let name = db_table_name data_table
      in (case field_columns types (table_fields self) [] of
           Inl e \<Rightarrow> Inl e
         | Inr cols \<Rightarrow>
            (let cols' = dict_set ''search_data'' (''search_vector'', True) cols;
                 ordering_l = table_ordering self;
                 filtering_l = (case table_filtering self of None \<Rightarrow> [] | Some f \<Rightarrow> f);
                 search_l = (case table_search self of None \<Rightarrow> [] | Some f \<Rightarrow> f)
             in (case (if ordering_l \<noteq> []
                      then (case make_index name ''order'' ordering_l of
                              Inl e \<Rightarrow> Inl e | Inr i \<Rightarrow> Inr [i])
                      else Inr []) of
                  Inl e \<Rightarrow> Inl e
                | Inr order_index \<Rightarrow>
                    (case filter_indexes name ordering_l filtering_l of
                       Inl e \<Rightarrow> Inl e
                     | Inr filter_index \<Rightarrow>
                         (case (if search_l \<noteq> []
                                then (case make_index name ''search'' [''search_data''] of
                                        Inl e \<Rightarrow> Inl e | Inr i \<Rightarrow> Inr [i])
                                else Inr []) of
                            Inl e \<Rightarrow> Inl e
                          | Inr search_index \<Rightarrow>
                              let Model = create_model_class name cols'
                                            (order_index @ filter_index @ search_index)
                              in Inr (Model\<lparr>meta := (meta Model)
                                        \<lparr>extra_filtering := filtering_l,
                                         extra_ordering := ordering_l,
                                         extra_search := search_l\<rparr>\<rparr>)))))))"

subsection \<open>\<open>DataTableQuerySet\<close> and \<open>DataTable\<close>\<close>

text \<open>
  \<open>DataTableQuerySet\<close>, on the list of rows a query set selects. \<open>most_recent\<close> is
  \<open>order_by("-created_at").first()\<close>: \<open>None\<close> on no row, else a row of greatest
  \<open>created_at\<close> (among equals, the first in row order).
\<close>

fun most_recent :: "DataTable list \<Rightarrow> DataTable option" where
  "most_recent [] = None"
| "most_recent (r # rs) =
     (case most_recent rs of
        None \<Rightarrow> Some r
      | Some m \<Rightarrow> if created_at r < created_at m then Some m else Some r)"

definition qs_inactive :: "DataTable list \<Rightarrow> DataTable list" where
  "qs_inactive rs = filter (\<lambda>r. \<not> active r) rs"

definition qs_active :: "DataTable list \<Rightarrow> DataTable list" where
  "qs_active rs = filter active rs"

definition get_current_active :: "DataTable list \<Rightarrow> DataTable option" where
  "get_current_active rs = most_recent (qs_active rs)"

text \<open>\<open>exclude(id=i)\<close>; with \<open>i\<close> being \<open>None\<close> it excludes the rows without an id: none.\<close>

definition exclude_id :: "nat option \<Rightarrow> DataTable list \<Rightarrow> DataTable list" where
  "exclude_id i rs = (case i of None \<Rightarrow> rs | Some _ \<Rightarrow> filter (\<lambda>r. pk r \<noteq> i) rs)"

text \<open>\<open>table.data_tables\<close>: the related manager of the logical table with key \<open>t\<close>.\<close>

definition data_tables :: "nat \<Rightarrow> database \<Rightarrow> DataTable list" where
  "data_tables t s = filter (\<lambda>r. table_id r = Some t) (rows s)"

text \<open>
  \<open>save()\<close>: an object without primary key is inserted with the next key; an object
  whose key is stored overwrites that row with all its fields; an object whose key is
  not stored is inserted under its key. An insert stamps \<open>created_at\<close>.
\<close>

definition save :: "DataTable \<Rightarrow> database \<Rightarrow> DataTable \<times> database" where
  "save self s =
     (case pk self of
        None \<Rightarrow>
          let self' = self\<lparr>pk := Some (next_pk s), created_at := now s\<rparr>
          in (self', s\<lparr>rows := rows s @ [self'], next_pk := Suc (next_pk s)\<rparr>)
      | Some i \<Rightarrow>
          if Some i \<in> set (map pk (rows s))
          then (self, s\<lparr>rows := map (\<lambda>r. if pk r = Some i then self else r) (rows s)\<rparr>)
          else let self' = self\<lparr>created_at := now s\<rparr>
               in (self', s\<lparr>rows := rows s @ [self']\<rparr>))"

text \<open>
  Modelled from the spec: \<open>Model.delete_table\<close> of \<open>core.dynamic_models\<close>, which is not
  under src/. It destroys the physical structure of the generation; the storage engine
  raises \<open>ProgrammingError\<close> when the structure does not exist.

\<close>

definition delete_table :: "string \<Rightarrow> database \<Rightarrow> unit result" where
  "delete_table name s =
     (if name \<in> physical s then Inr ((), s\<lparr>physical := physical s - {name}\<rparr>)
      else Inl (ProgrammingError, s))"

text \<open>
  \<open>delete_data_table\<close> (lines 517 to 522): \<open>self.table.get_model\<close> is called before
  the \<open>try\<close>, so what it raises (the \<open>AttributeError\<close> of a generation without
  logical table, an unknown field type, an index name that ASCII cannot encode) leaves
  the method; of \<open>delete_table\<close> only \<open>ProgrammingError\<close> is swallowed.
\<close>

definition delete_data_table :: "DataTable \<Rightarrow> database \<Rightarrow> unit result" where
  "delete_data_table self s =
     (case table self of
        None \<Rightarrow> Inl (AttributeError, s)
      | Some t \<Rightarrow>
          (case get_model (FIELD_TYPES s) t self of
             Inl e \<Rightarrow> Inl (e, s)
           | Inr Model \<Rightarrow>
               (case delete_table (db_table (meta Model)) s of
                  Inl (e, s') \<Rightarrow> if e = ProgrammingError then Inr ((), s') else Inl (e, s')
                | Inr x \<Rightarrow> Inr x)))"

text \<open>Lines 512 to 515, the plain state change of \<open>deactivate\<close>.\<close>

definition deactivate_plain :: "DataTable \<Rightarrow> bool \<Rightarrow> database \<Rightarrow> DataTable result" where
  "deactivate_plain self drop_table s =
     (case save (self\<lparr>active := False\<rparr>) s of
        (self', s1) \<Rightarrow>
          if drop_table then
            (case delete_data_table self' s1 of
               Inl e \<Rightarrow> Inl e
             | Inr (_, s2) \<Rightarrow> Inr (self', s2))
          else Inr (self', s1))"

text \<open>
  \<open>activate\<close> (lines 496 to 502) and \<open>deactivate\<close> (lines 504 to 515) call each other.
  Each returns the object \<open>self\<close> as the call leaves it in memory. The early
  \<open>return\<close> of line 510 leaves \<open>self\<close> as it was.
\<close>

function activate :: "DataTable \<Rightarrow> bool \<Rightarrow> database \<Rightarrow> DataTable result"
  and deactivate :: "DataTable \<Rightarrow> bool \<Rightarrow> bool \<Rightarrow> database \<Rightarrow> DataTable result" where
  "activate self drop_inactive_table s =
     atomic s
       (case table self of
          None \<Rightarrow> Inl (AttributeError, s)
        | Some t \<Rightarrow>
            (case get_current_active (data_tables (table_pk t) s) of
               None \<Rightarrow> Inr (save (self\<lparr>active := True\<rparr>) s)
             | Some prev_data_table \<Rightarrow>
                 (case deactivate prev_data_table drop_inactive_table False s of
                    Inl e \<Rightarrow> Inl e
                  | Inr (_, s1) \<Rightarrow> Inr (save (self\<lparr>active := True\<rparr>) s1))))"
| "deactivate self drop_table activate_most_recent s =
     atomic s
       (if activate_most_recent \<and> active self then
          (case table self of
             None \<Rightarrow> Inl (AttributeError, s)
           | Some t \<Rightarrow>
               (case most_recent
                       (qs_inactive (exclude_id (pk self) (data_tables (table_pk t) s))) of
                  Some m \<Rightarrow>
                    (case activate m drop_table s of
                       Inl e \<Rightarrow> Inl e
                     | Inr (_, s1) \<Rightarrow> Inr (self, s1))
                | None \<Rightarrow> deactivate_plain self drop_table s))
        else deactivate_plain self drop_table s)"
  by pat_completeness auto
termination
  by (relation "measure (\<lambda>x. case x of
         Inl (self, d, s) \<Rightarrow> 1
       | Inr (self, d, amr, s) \<Rightarrow> if amr then 2 else 0)") auto

declare activate.simps [simp del] deactivate.simps [simp del]

text \<open>
  Deleting a generation: Django's \<open>Model.delete\<close> refuses an object without primary
  key, sends \<open>pre_delete\<close>, deletes the row and sends \<open>post_delete\<close>, all in one
  transaction. The two receivers are those connected on lines 535 and 536.
\<close>

definition prevent_active_data_table_deletion :: "DataTable \<Rightarrow> database \<Rightarrow> unit result" where
  "prevent_active_data_table_deletion instance s =
     (if active instance then Inl (RuntimeError, s) else Inr ((), s))"

definition clean_associated_data_base_table :: "DataTable \<Rightarrow> database \<Rightarrow> unit result" where
  "clean_associated_data_base_table instance s = delete_data_table instance s"

definition delete :: "DataTable \<Rightarrow> database \<Rightarrow> unit result" where
  "delete instance s =
     (if pk instance = None then Inl (AssertionError, s)
      else atomic s
        (case prevent_active_data_table_deletion instance s of
           Inl e \<Rightarrow> Inl e
         | Inr (_, s1) \<Rightarrow>
             clean_associated_data_base_table instance
               (s1\<lparr>rows := filter (\<lambda>r. pk r \<noteq> pk instance) (rows s1)\<rparr>)))"

text \<open>\<open>new_data_table\<close> (lines 489 to 494); the random suffix is a parameter.\<close>

definition new_data_table :: "Table \<Rightarrow> string \<Rightarrow> DataTable" where
  "new_data_table t db_table_suffix =
     (let name = ''data_'' @ replace_py ''-'' '''' (dataset_slug t) @ ''_''
                   @ replace_py ''_'' '''' (table_name t);
          name' = (if db_table_suffix \<noteq> [] then name @ ''_'' @ db_table_suffix else name)
      in \<lparr>pk = None, created_at = 0, table = Some t, db_table_name = name', active = False\<rparr>)"

section \<open>Runs of activations\<close>

text \<open>
  The stored rows are well formed when every row has a primary key that the sequence
  has already passed and no two rows share one. \<open>n_active t s\<close> counts the active
  generations of the logical table with key \<open>t\<close>. An object is attached when it is
  unsaved or is the in-memory copy of a stored row of the same logical table.
\<close>

definition wf_db :: "database \<Rightarrow> bool" where
  "wf_db s \<longleftrightarrow>
     (\<forall>r \<in> set (rows s). \<exists>i. pk r = Some i \<and> i < next_pk s) \<and> distinct (map pk (rows s))"

definition n_active :: "nat \<Rightarrow> database \<Rightarrow> nat" where
  "n_active t s = length (filter (\<lambda>r. table_id r = Some t \<and> active r) (rows s))"

definition attached :: "DataTable \<Rightarrow> database \<Rightarrow> bool" where
  "attached self s \<longleftrightarrow>
     pk self = None \<or> (\<exists>r \<in> set (rows s). pk r = pk self \<and> table_id r = table_id self)"

text \<open>
  One call of \<open>activate\<close> by a client: on the stored generation with a given primary
  key (\<open>DataTable.objects.get(id=i).activate(...)\<close>; nothing happens when no such row
  exists), or on a new, unsaved generation of a logical table. \<open>call_table\<close> is the
  key of the logical table the call is about, \<open>activate_call\<close> the database after
  the call, whether it returned or raised, \<open>run\<close> the database after a sequence of
  calls.
\<close>

datatype target = Saved nat | Unsaved Table string

definition load :: "target \<Rightarrow> database \<Rightarrow> DataTable option" where
  "load g s =
     (case g of
        Saved i \<Rightarrow> find (\<lambda>r. pk r = Some i) (rows s)
      | Unsaved t name \<Rightarrow>
          Some \<lparr>pk = None, created_at = 0, table = Some t, db_table_name = name,
                active = False\<rparr>)"

definition call_table :: "database \<Rightarrow> target \<times> bool \<Rightarrow> nat option" where
  "call_table s c = (case load (fst c) s of None \<Rightarrow> None | Some self \<Rightarrow> table_id self)"

definition activate_call :: "database \<Rightarrow> target \<times> bool \<Rightarrow> database" where
  "activate_call s c =
     (case load (fst c) s of
        None \<Rightarrow> s
      | Some self \<Rightarrow>
          (case activate self (snd c) s of Inl (e, s') \<Rightarrow> s' | Inr (self', s') \<Rightarrow> s'))"

fun run :: "database \<Rightarrow> (target \<times> bool) list \<Rightarrow> database" where
  "run s [] = s"
| "run s (c # cs) = run (activate_call s c) cs"

text \<open>
  \<open>model_error s r\<close> is what \<open>get_model\<close> raises for the generation \<open>r\<close>, if anything;
  \<open>retire_error t drop_table s\<close> is what retiring the current active generation of
  \<open>t\<close> raises, if anything: nothing when no drop is asked for or no generation is
  active. \<open>set_row x rs\<close> is the table after an \<open>UPDATE\<close> of the row with the key
  of \<open>x\<close>. \<open>deactivated t drop_table s\<close> is the database inside \<open>activate\<close> after
  line 500, when the current active generation of \<open>t\<close>, if any, has been deactivated.
\<close>

definition model_error :: "database \<Rightarrow> DataTable \<Rightarrow> error option" where
  "model_error s r =
     (case table r of
        None \<Rightarrow> Some AttributeError
      | Some t \<Rightarrow>
          (case get_model (FIELD_TYPES s) t r of Inl e \<Rightarrow> Some e | Inr _ \<Rightarrow> None))"

definition retire_error :: "nat \<Rightarrow> bool \<Rightarrow> database \<Rightarrow> error option" where
  "retire_error t drop_table s =
     (if drop_table then
        (case get_current_active (data_tables t s) of
           None \<Rightarrow> None
         | Some prev \<Rightarrow> model_error s prev)
      else None)"

definition set_row :: "DataTable \<Rightarrow> DataTable list \<Rightarrow> DataTable list" where
  "set_row x rs = map (\<lambda>r. if pk r = pk x then x else r) rs"

definition deactivated :: "nat \<Rightarrow> bool \<Rightarrow> database \<Rightarrow> database" where
  "deactivated t drop_table s =
     (case get_current_active (data_tables t s) of
        None \<Rightarrow> s
      | Some prev \<Rightarrow>
          s\<lparr>rows := set_row (prev\<lparr>active := False\<rparr>) (rows s),
            physical := (if drop_table then physical s - {db_table_name prev} else physical s)\<rparr>)"

text \<open>
  The examples: a logical table 7 with two fields; its active generation 1 and its
  younger inactive generation 2; generation 3, active, whose physical name has the
  letter \<open>e\<close> with acute accent (code point 233), as \<open>new_data_table\<close> gives it for
  a table name with that letter; databases of these.
\<close>

definition tbl7 :: Table where
  "tbl7 = \<lparr>table_pk = 7, dataset_slug = ''ds'', table_name = ''t'',
           table_ordering = [''name''], table_filtering = Some [''age''],
           table_search = Some [''name''],
           table_fields = [\<lparr>field_name = ''name'', field_type = ''string'', field_null = False\<rparr>,
                           \<lparr>field_name = ''age'', field_type = ''integer'', field_null = True\<rparr>]\<rparr>"

definition gen1 :: DataTable where
  "gen1 = \<lparr>pk = Some 1, created_at = 10, table = Some tbl7,
            db_table_name = ''data_ds_t_aaaaaaaa'', active = True\<rparr>"

definition gen2 :: DataTable where
  "gen2 = \<lparr>pk = Some 2, created_at = 20, table = Some tbl7,
            db_table_name = ''data_ds_t_bbbbbbbb'', active = False\<rparr>"

definition gen3 :: DataTable where
  "gen3 = \<lparr>pk = Some 3, created_at = 15, table = Some tbl7,
            db_table_name = ''data_ds_caf'' @ [CHR 0xE9] @ ''_cccccccc'', active = True\<rparr>"

definition registered :: "string list" where
  "registered = [''binary'', ''bool'', ''date'', ''datetime'', ''decimal'', ''email'',
                 ''float'', ''integer'', ''json'', ''string'', ''text'']"

definition db2 :: database where
  "db2 = \<lparr>rows = [gen1, gen2],
          physical = {''data_ds_t_aaaaaaaa'', ''data_ds_t_bbbbbbbb''},
          next_pk = 3, now = 30, FIELD_TYPES = registered\<rparr>"

definition db1 :: database where
  "db1 = \<lparr>rows = [gen1], physical = {''data_ds_t_aaaaaaaa''}, next_pk = 2, now = 30,
          FIELD_TYPES = registered\<rparr>"

definition db0 :: database where
  "db0 = \<lparr>rows = [], physical = {}, next_pk = 1, now = 5, FIELD_TYPES = registered\<rparr>"

definition db3 :: database where
  "db3 = \<lparr>rows = [gen3, gen2],
          physical = {''data_ds_caf'' @ [CHR 0xE9] @ ''_cccccccc'', ''data_ds_t_bbbbbbbb''},
          next_pk = 4, now = 30, FIELD_TYPES = registered\<rparr>"

definition db4 :: database where
  "db4 = \<lparr>rows = [gen3], physical = {''data_ds_caf'' @ [CHR 0xE9] @ ''_cccccccc''},
          next_pk = 4, now = 30, FIELD_TYPES = registered\<rparr>"

section \<open>Properties of index names\<close>

lemma length_le_bytes: "length (le_bytes k v) = k"
  by (simp add: le_bytes_def)

lemma length_md5_digest: "length (md5_digest msg) = 16"
  by (simp add: md5_digest_def length_le_bytes split: prod.splits)

lemma length_hexdigest: "length (hexdigest bs) = 2 * length bs"
  by (induction bs) (simp_all add: hexdigest_def)

lemma length_md5_hexdigest: "length (md5_hexdigest s) = 32"
  by (simp add: md5_hexdigest_def length_hexdigest length_md5_digest)

lemma replace_py_remove_char: "replace_py [c] [] s = filter (\<lambda>x. x \<noteq> c) s"
proof (induction s)
  case Nil
  show ?case by (simp add: replace_py.simps [of "[c]" "[]" "[]"])
next
  case (Cons a s)
  show ?case
    using Cons.IH by (simp add: replace_py.simps [of "[c]" "[]" "a # s"])
qed

lemma sort_mset_eq:
  fixes xs ys :: "string list"
  shows "mset xs = mset ys \<Longrightarrow> sort xs = sort ys"
  by (metis sorted_list_of_multiset_mset)

lemma make_index_name_ok:
  assumes "is_ascii (t @ '' '' @ k @ '' '' @ join_py '', '' (sort fs))" and "k \<noteq> []"
  shows "make_index_name t k fs =
           Inr (''idx_'' @ take 12 (filter (\<lambda>c. c \<noteq> CHR ''-'') (replace_py ''data_'' '''' t))
                  @ ''_'' @ [hd k]
                  @ drop 20 (md5_hexdigest (t @ '' '' @ k @ '' '' @ join_py '', '' (sort fs))))"
  using assms
  by (cases k) (simp_all add: make_index_name_def Let_def replace_py_remove_char
      length_md5_hexdigest)

text \<open>
  C6, as stated, fails: the code puts an underscore between the truncated table name and
  the initial of the index kind and joins the sorted field names with a comma and a
  space, so its result differs from the stated concatenation already at the table
  \<open>data_x\<close>, kind \<open>order\<close>, fields \<open>a\<close>, \<open>b\<close>.
\<close>

theorem make_index_name_spec_counterexample:
  "make_index_name ''data_x'' ''order'' [''a'', ''b'']
     \<noteq> Inr (spec_make_index_name ''data_x'' ''order'' [''a'', ''b''])"
proof -
  have a: "is_ascii (''data_x'' @ '' '' @ ''order'' @ '' '' @ join_py '', '' (sort [''a'', ''b'']))"
    by code_simp
  have k: "''order'' \<noteq> []" by simp
  have r: "replace_py ''data_'' '''' ''data_x'' = ''x''"
    by code_simp
  show ?thesis
    by (simp add: make_index_name_ok [OF a k] r spec_make_index_name_def Let_def)
qed

text \<open>
  C6, amended: for a non-empty index kind and ASCII inputs, \<open>make_index_name\<close> returns
  \<open>idx_\<close>, the truncated table name, an underscore, the first character of the index
  kind and the hash suffix, in this order. The hash suffix is the last 12 of the 32
  hexadecimal digits of the MD5 of table name, index kind and the sorted field names
  joined by a comma and a space, the three separated by single spaces. The truncated
  table name is the table name with every occurrence of \<open>data_\<close> removed, then every
  hyphen removed, cut to at most 12 characters. The result has at most 30 characters.
\<close>

theorem make_index_name_format:
  assumes "is_ascii (t @ '' '' @ k @ '' '' @ join_py '', '' (sort fs))" and "k \<noteq> []"
  shows "\<exists>truncated suffix.
           make_index_name t k fs = Inr (''idx_'' @ truncated @ ''_'' @ [hd k] @ suffix)
         \<and> truncated = take 12 (replace_py ''-'' '''' (replace_py ''data_'' '''' t))
         \<and> length truncated \<le> 12 \<and> CHR ''-'' \<notin> set truncated
         \<and> suffix = drop 20 (md5_hexdigest (t @ '' '' @ k @ '' '' @ join_py '', '' (sort fs)))
         \<and> length suffix = 12
         \<and> length (''idx_'' @ truncated @ ''_'' @ [hd k] @ suffix) \<le> 30"
proof -
  let ?tr = "take 12 (replace_py ''-'' '''' (replace_py ''data_'' '''' t))"
  let ?su = "drop 20 (md5_hexdigest (t @ '' '' @ k @ '' '' @ join_py '', '' (sort fs)))"
  have 1: "make_index_name t k fs = Inr (''idx_'' @ ?tr @ ''_'' @ [hd k] @ ?su)"
    by (simp add: make_index_name_ok [OF assms] replace_py_remove_char)
  have 2: "length ?tr \<le> 12" by simp
  have 3: "CHR ''-'' \<notin> set ?tr"
    by (auto simp: replace_py_remove_char dest: in_set_takeD)
  have 4: "length ?su = 12" by (simp add: length_md5_hexdigest)
  have 5: "length (''idx_'' @ ?tr @ ''_'' @ [hd k] @ ?su) \<le> 30"
    using 2 4 by simp
  from 1 2 3 4 5 show ?thesis by blast
qed

theorem make_index_name_format_witness:
  "\<exists>truncated suffix.
     make_index_name ''data_my-table'' ''filter'' [''b'', ''a''] =
       Inr (''idx_'' @ truncated @ ''_'' @ ''f'' @ suffix)
     \<and> truncated = ''mytable''
     \<and> suffix = drop 20 (md5_hexdigest ''data_my-table filter a, b'')
     \<and> length suffix = 12"
proof -
  have a: "is_ascii (''data_my-table'' @ '' '' @ ''filter'' @ '' ''
                       @ join_py '', '' (sort [''b'', ''a'']))"
    by code_simp
  have k: "''filter'' \<noteq> []" by simp
  have r: "take 12 (replace_py ''-'' '''' (replace_py ''data_'' '''' ''data_my-table'')) = ''mytable''"
    by code_simp
  have s: "sort [''b'', ''a''] = [''a'', ''b'']"
    by code_simp
  show ?thesis
    using make_index_name_format [OF a k] by (simp add: r s)
qed

text \<open>
  C7: \<open>make_index_name\<close> is a function of its three inputs, and field lists that are
  permutations of each other (equal as multisets) give the same result, an error
  included.
\<close>

theorem make_index_name_permutation:
  "mset fs = mset fs' \<Longrightarrow> make_index_name t k fs = make_index_name t k fs'"
  by (simp add: make_index_name_def sort_mset_eq [of fs fs'])

theorem make_index_name_permutation_witness:
  "mset [''a'', ''b''] = mset [''b'', ''a''] \<and>
   make_index_name ''data_x'' ''order'' [''a'', ''b'']
     = make_index_name ''data_x'' ''order'' [''b'', ''a'']"
proof -
  have h: "mset [''a'', ''b''] = mset [''b'', ''a'']" by (simp add: add.commute)
  show ?thesis
    using h make_index_name_permutation [OF h, of "''data_x''" "''order''"] by simp
qed

section \<open>Properties of the query sets\<close>

text \<open>
  C3, as stated, fails: when the statistics read yields \<open>-1\<close> no exception is raised,
  \<open>int(-1.0)\<close> is \<open>-1\<close>, and an unfiltered \<open>count()\<close> returns \<open>-1\<close> whatever the
  exact row count (here 5) is.
\<close>

theorem count_minus_one_counterexample:
  "where_children people_qs = [] \<and>
   fst (count_qs (StatRow (Finite (- 1))) 5 people_qs) = - 1 \<and>
   fst (count_qs (StatRow (Finite (- 1))) 5 people_qs) \<noteq> 5"
  by (simp add: count_qs_def people_qs_def py_int_def ceiling_def)

text \<open>
  C3, amended: on a query set with no cached count, an unfiltered \<open>count()\<close> returns
  the exact row count whenever the statistics read raises, finds no row or yields a
  value \<open>int\<close> rejects; when the read yields a finite number it returns that number
  truncated towards zero (so \<open>-1\<close> for \<open>-1\<close>); a filtered \<open>count()\<close> returns the exact
  row count. The returned number is cached on the query set.
\<close>

theorem count_fallback:
  assumes "count_cache qs = None"
  shows "(where_children qs = [] \<longrightarrow> stat \<in> {StatRaises, StatNoRow, StatRow NonFinite} \<longrightarrow>
            fst (count_qs stat exact qs) = exact)
       \<and> (where_children qs = [] \<longrightarrow>
            fst (count_qs (StatRow (Finite x)) exact qs) = py_int x)
       \<and> (where_children qs \<noteq> [] \<longrightarrow> fst (count_qs stat exact qs) = exact)
       \<and> count_cache (snd (count_qs stat exact qs)) = Some (fst (count_qs stat exact qs))"
  using assms
  by (auto simp: count_qs_def split: stat_read.splits pyfloat.splits)

theorem count_fallback_witness:
  "count_cache people_qs = None \<and> where_children people_qs = [] \<and>
   fst (count_qs StatNoRow 5 people_qs) = 5 \<and>
   fst (count_qs (StatRow (Finite 1234)) 5 people_qs) = 1234 \<and>
   where_children (people_qs\<lparr>where_children := [FieldLookup ''age'' ''30'']\<rparr>) \<noteq> [] \<and>
   fst (count_qs (StatRow (Finite 1234)) 5
          (people_qs\<lparr>where_children := [FieldLookup ''age'' ''30'']\<rparr>)) = 5"
proof -
  have c: "count_cache people_qs = None" by (simp add: people_qs_def)
  have w: "where_children people_qs = []" by (simp add: people_qs_def)
  have c': "count_cache (people_qs\<lparr>where_children := [FieldLookup ''age'' ''30'']\<rparr>) = None"
    by (simp add: people_qs_def)
  show ?thesis
    using count_fallback [OF c, of StatNoRow 5 1234]
      count_fallback [OF c', of "StatRow (Finite 1234)" 5 0] c w
    by (simp add: py_int_def)
qed

text \<open>
  C4: a query of spaces only is a non-empty string, so on a table with search fields
  the guard of line 71 lets it through; no word is found, \<open>query\<close> is still \<open>None\<close>
  after the loop, and line 82 annotates the rank of \<open>None\<close> and filters
  \<open>search_data=None\<close>. The query set is not returned unchanged.
\<close>

theorem search_blank_query_filters:
  "split_py ''   '' = [] \<and>
   search remdups people_qs ''   '' =
     people_qs\<lparr>annotations := [(''search_rank'', SearchRank None)],
               where_children := [SearchData None],
               order_by := [''-search_rank'']\<rparr> \<and>
   search remdups people_qs ''   '' \<noteq> people_qs"
  by (simp add: search_def annotate_def people_qs_def split_py_def is_space_def)

text \<open>
  C9: the empty query and a query of spaces split to the same (empty) set of terms, but
  \<open>search\<close> returns the query set itself for the first and a filtered, annotated
  clone for the second.
\<close>

theorem search_same_terms_differ:
  "set (split_py '''') = set (split_py ''   '') \<and>
   search remdups people_qs '''' = people_qs \<and>
   where_children (search remdups people_qs ''   '') = [SearchData None] \<and>
   search remdups people_qs '''' \<noteq> search remdups people_qs ''   ''"
  by (simp add: search_def annotate_def people_qs_def split_py_def is_space_def)

lemma add_ordering_search_rank:
  "add_ordering [''-search_rank''] qs = Inr (qs\<lparr>order_by := order_by qs @ [''-search_rank'']\<rparr>)"
  by (simp add: add_ordering_def order_pattern_match_def is_word_char_def)

text \<open>
  C8: the whitelist of line 102 removes every hyphen of a requested name, not one
  leading hyphen, so the request \<open>--age\<close> passes it for the filtering field \<open>age\<close>,
  is handed to \<open>add_ordering\<close> as it was written and is refused there with
  \<open>FieldError\<close>: the call raises where the claim has the name dropped and the default
  ordering applied. The two examples of the claim do hold: \<open>-age\<close> is appended to an
  ordering already there, and no request gives the declared ordering.
\<close>

theorem apply_ordering_double_hyphen:
  "apply_ordering people_qs [''--age''] = Inl FieldError \<and>
   apply_ordering (people_qs\<lparr>order_by := [''-search_rank'']\<rparr>) [''-age'', ''salary'']
     = Inr (people_qs\<lparr>order_by := [''-search_rank'', ''-age'']\<rparr>) \<and>
   apply_ordering people_qs [] = Inr (people_qs\<lparr>order_by := [''name'']\<rparr>)"
  by (simp add: apply_ordering_def add_ordering_def order_pattern_match_def is_word_char_def
      people_qs_def replace_py_remove_char lower_py_def strip_py_def is_space_def
      lower_char_def Let_def)

section \<open>Properties of the generations\<close>

lemma most_recent_None: "most_recent rs = None \<longleftrightarrow> rs = []"
  by (induction rs) (auto split: option.splits)

lemma most_recent_in: "most_recent rs = Some m \<Longrightarrow> m \<in> set rs"
  by (induction rs arbitrary: m) (auto split: option.splits if_splits)

lemma most_recent_max_all:
  "most_recent rs = Some m \<Longrightarrow> \<forall>r \<in> set rs. created_at r \<le> created_at m"
proof (induction rs arbitrary: m)
  case Nil
  then show ?case by simp
next
  case (Cons a rs)
  show ?case
  proof (cases "most_recent rs")
    case None
    then have "rs = []" by (simp add: most_recent_None)
    with Cons.prems None show ?thesis by simp
  next
    case (Some m')
    have le: "\<forall>x \<in> set rs. created_at x \<le> created_at m'"
      using Cons.IH [OF Some] .
    show ?thesis
    proof (cases "created_at a < created_at m'")
      case True
      with Some Cons.prems have "m = m'" by simp
      with True le show ?thesis by auto
    next
      case False
      with Some Cons.prems have "m = a" by simp
      with False le show ?thesis by fastforce
    qed
  qed
qed

lemma most_recent_max:
  "most_recent rs = Some m \<Longrightarrow> r \<in> set rs \<Longrightarrow> created_at r \<le> created_at m"
  using most_recent_max_all by blast

lemma get_model_active: "get_model types t (r\<lparr>active := b\<rparr>) = get_model types t r"
  by (simp add: get_model_def)

lemma get_model_db_table:
  "get_model types t r = Inr M \<Longrightarrow> db_table (meta M) = db_table_name r"
  by (auto simp: get_model_def create_model_class_def Let_def split: sum.splits if_splits)

lemma model_error_frame:
  "model_error (s\<lparr>rows := x\<rparr>) r = model_error s r"
  "model_error s (r\<lparr>active := b\<rparr>) = model_error s r"
  by (simp_all add: model_error_def get_model_active cong: option.case_cong)

lemma delete_data_table_eq:
  "delete_data_table self s =
     (case model_error s self of
        Some e \<Rightarrow> Inl (e, s)
      | None \<Rightarrow> Inr ((), s\<lparr>physical := physical s - {db_table_name self}\<rparr>))"
proof (cases "table self")
  case None
  then show ?thesis by (simp add: delete_data_table_def model_error_def)
next
  case (Some t)
  show ?thesis
  proof (cases "get_model (FIELD_TYPES s) t self")
    case (Inl e)
    with Some show ?thesis by (simp add: delete_data_table_def model_error_def)
  next
    case (Inr M)
    then have "db_table (meta M) = db_table_name self" by (rule get_model_db_table)
    with Some Inr show ?thesis
      by (cases "db_table_name self \<in> physical s")
        (simp_all add: delete_data_table_def model_error_def delete_table_def)
  qed
qed

lemma save_unsaved:
  "pk self = None \<Longrightarrow>
     save self s =
       (self\<lparr>pk := Some (next_pk s), created_at := now s\<rparr>,
        s\<lparr>rows := rows s @ [self\<lparr>pk := Some (next_pk s), created_at := now s\<rparr>],
          next_pk := Suc (next_pk s)\<rparr>)"
  by (simp add: save_def Let_def)

lemma set_row_count:
  assumes "distinct (map pk rs)" and "r0 \<in> set rs" and "pk x = pk r0"
  shows "length (filter P (set_row x rs)) + (if P r0 then 1 else 0)
         = length (filter P rs) + (if P x then 1 else 0)"
  using assms(1,2)
proof (induction rs)
  case Nil
  then show ?case by simp
next
  case (Cons a rs)
  show ?case
  proof (cases "a = r0")
    case True
    with Cons.prems(1) have "\<forall>r \<in> set rs. pk r \<noteq> pk r0" by (auto simp: image_iff)
    then have "set_row x rs = rs"
      using assms(3) by (simp add: set_row_def map_idI)
    with True assms(3) show ?thesis by (simp add: set_row_def)
  next
    case False
    with Cons.prems have in_rs: "r0 \<in> set rs" and d: "distinct (map pk rs)"
      by auto
    from in_rs Cons.prems(1) have "pk a \<noteq> pk r0" by force
    with Cons.IH [OF d in_rs] assms(3) show ?thesis by (simp add: set_row_def)
  qed
qed

lemma set_row_pks: "map pk (set_row x rs) = map pk rs"
  by (induction rs) (auto simp: set_row_def)

lemma set_row_keys:
  assumes "distinct (map pk rs)" and "r0 \<in> set rs" and "pk x = pk r0"
    and "table_id x = table_id r0"
  shows "map (\<lambda>r. (pk r, table_id r)) (set_row x rs) = map (\<lambda>r. (pk r, table_id r)) rs"
proof -
  have inj: "inj_on pk (set rs)" using assms(1) by (simp add: distinct_map)
  have "\<And>r. r \<in> set rs \<Longrightarrow> pk r = pk x \<Longrightarrow> r = r0"
    using inj assms(2,3) by (auto dest: inj_onD)
  then show ?thesis
    using assms(3,4) by (auto simp: set_row_def)
qed

lemma set_row_mem: "r0 \<in> set rs \<Longrightarrow> pk x = pk r0 \<Longrightarrow> x \<in> set (set_row x rs)"
  by (force simp: set_row_def)

lemma set_row_other: "r \<in> set rs \<Longrightarrow> pk r \<noteq> pk x \<Longrightarrow> r \<in> set (set_row x rs)"
  by (force simp: set_row_def)

lemma set_row_set: "set (set_row x rs) \<subseteq> insert x (set rs)"
  by (auto simp: set_row_def)

lemma filter_singleton:
  "length (filter P xs) = 1 \<Longrightarrow> x \<in> set xs \<Longrightarrow> P x \<Longrightarrow> filter P xs = [x]"
proof -
  assume len: "length (filter P xs) = 1" and "x \<in> set xs" and "P x"
  then have "x \<in> set (filter P xs)" by simp
  moreover from len obtain y where "filter P xs = [y]"
    by (cases "filter P xs") auto
  ultimately show ?thesis by simp
qed

lemma save_stored:
  assumes "r0 \<in> set (rows s)" and "pk r0 = pk self" and "wf_db s"
  shows "save self s = (self, s\<lparr>rows := set_row self (rows s)\<rparr>)"
proof -
  from assms have "\<exists>i. pk self = Some i" unfolding wf_db_def by metis
  then obtain i where i: "pk self = Some i" ..
  with assms(1,2) have "Some i \<in> set (map pk (rows s))" by force
  with i show ?thesis by (simp add: save_def set_row_def)
qed

lemma wf_db_set_row:
  assumes "wf_db s" and "r0 \<in> set (rows s)" and "pk x = pk r0"
  shows "wf_db (s\<lparr>rows := set_row x (rows s), physical := p\<rparr>)"
proof -
  have "\<forall>r \<in> set (set_row x (rows s)). \<exists>i. pk r = Some i \<and> i < next_pk s"
  proof
    fix r assume "r \<in> set (set_row x (rows s))"
    then have "r = x \<or> r \<in> set (rows s)" using set_row_set by fastforce
    with assms show "\<exists>i. pk r = Some i \<and> i < next_pk s"
      unfolding wf_db_def by metis
  qed
  with assms(1) show ?thesis by (simp add: wf_db_def set_row_pks)
qed

lemma attached_keys:
  "attached self s \<longleftrightarrow>
     pk self = None \<or> (pk self, table_id self) \<in> set (map (\<lambda>r. (pk r, table_id r)) (rows s))"
  unfolding attached_def by (simp add: image_iff) metis

lemma table_id_update [simp]:
  "table_id (r\<lparr>active := b\<rparr>) = table_id r"
  "table_id (r\<lparr>pk := p\<rparr>) = table_id r"
  "table_id (r\<lparr>created_at := c\<rparr>) = table_id r"
  by (simp_all add: table_id_def)

text \<open>
  A stored generation is deactivated all or nothing: if a drop is asked for and its
  model cannot be synthesized, the call raises and the database is as before.
\<close>

lemma deactivate_stored:
  assumes "wf_db s" and "prev \<in> set (rows s)"
  shows "deactivate prev dr False s =
           (case (if dr then model_error s prev else None) of
              Some e \<Rightarrow> Inl (e, s)
            | None \<Rightarrow>
                Inr (prev\<lparr>active := False\<rparr>,
                     s\<lparr>rows := set_row (prev\<lparr>active := False\<rparr>) (rows s),
                       physical := (if dr then physical s - {db_table_name prev}
                                    else physical s)\<rparr>))"
proof -
  have sv: "save (prev\<lparr>active := False\<rparr>) s
              = (prev\<lparr>active := False\<rparr>, s\<lparr>rows := set_row (prev\<lparr>active := False\<rparr>) (rows s)\<rparr>)"
    using save_stored [OF assms(2) _ assms(1), of "prev\<lparr>active := False\<rparr>"] by simp
  show ?thesis
    by (simp add: deactivate.simps deactivate_plain_def sv atomic_def delete_data_table_eq
        model_error_frame split: option.splits)
qed

lemma current_active_stored:
  assumes "get_current_active (data_tables t s) = Some prev"
  shows "prev \<in> set (rows s) \<and> table_id prev = Some t \<and> active prev"
proof -
  from assms have "prev \<in> set (qs_active (data_tables t s))"
    unfolding get_current_active_def by (rule most_recent_in)
  then show ?thesis by (simp add: qs_active_def data_tables_def)
qed

lemma current_active_None:
  "get_current_active (data_tables t s) = None \<longleftrightarrow> n_active t s = 0"
  by (simp add: get_current_active_def most_recent_None qs_active_def data_tables_def
      n_active_def conj_commute)

lemma table_id_Some: "table_id r = Some t \<longleftrightarrow> (\<exists>T. table r = Some T \<and> table_pk T = t)"
  by (cases "table r") (auto simp: table_id_def)

lemma activate_eq:
  assumes "wf_db s" and "table_id self = Some t"
  shows "activate self dr s =
           (case retire_error t dr s of
              Some e \<Rightarrow> Inl (e, s)
            | None \<Rightarrow> Inr (save (self\<lparr>active := True\<rparr>) (deactivated t dr s)))"
proof -
  from assms(2) obtain T where T: "table self = Some T" "table_pk T = t"
    by (auto simp: table_id_Some)
  show ?thesis
  proof (cases "get_current_active (data_tables t s)")
    case None
    with T show ?thesis
      by (simp add: activate.simps deactivated_def retire_error_def atomic_def)
  next
    case (Some prev)
    then have "prev \<in> set (rows s)" using current_active_stored by blast
    from deactivate_stored [OF assms(1) this, of dr] Some T show ?thesis
      by (simp add: activate.simps deactivated_def retire_error_def atomic_def
          split: option.splits)
  qed
qed

lemma deactivated_props:
  assumes "wf_db s" and "n_active t s \<le> 1"
  shows "wf_db (deactivated t dr s)"
    and "n_active t (deactivated t dr s) = 0"
    and "t' \<noteq> t \<Longrightarrow> n_active t' (deactivated t dr s) = n_active t' s"
    and "map (\<lambda>r. (pk r, table_id r)) (rows (deactivated t dr s))
           = map (\<lambda>r. (pk r, table_id r)) (rows s)"
    and "next_pk (deactivated t dr s) = next_pk s"
proof -
  show "wf_db (deactivated t dr s)"
  proof (cases "get_current_active (data_tables t s)")
    case None
    with assms(1) show ?thesis by (simp add: deactivated_def)
  next
    case (Some prev)
    then have "prev \<in> set (rows s)" using current_active_stored by blast
    from wf_db_set_row [OF assms(1) this, of "prev\<lparr>active := False\<rparr>"] Some
    show ?thesis by (simp add: deactivated_def)
  qed
  show "n_active t (deactivated t dr s) = 0"
  proof (cases "get_current_active (data_tables t s)")
    case None
    then have "n_active t s = 0" by (simp add: current_active_None)
    with None show ?thesis by (simp add: deactivated_def)
  next
    case (Some prev)
    then have p: "prev \<in> set (rows s)" "table_id prev = Some t" "active prev"
      using current_active_stored by blast+
    from assms(1) have d: "distinct (map pk (rows s))" by (simp add: wf_db_def)
    from set_row_count [OF d p(1), of "prev\<lparr>active := False\<rparr>"
        "\<lambda>r. table_id r = Some t \<and> active r"] p
    have "Suc (length (filter (\<lambda>r. table_id r = Some t \<and> active r)
                 (set_row (prev\<lparr>active := False\<rparr>) (rows s)))) = n_active t s"
      by (simp add: n_active_def)
    with assms(2)
    have "length (filter (\<lambda>r. table_id r = Some t \<and> active r)
            (set_row (prev\<lparr>active := False\<rparr>) (rows s))) = 0"
      by linarith
    then show ?thesis using Some by (simp add: deactivated_def n_active_def)
  qed
  show "n_active t' (deactivated t dr s) = n_active t' s" if "t' \<noteq> t"
  proof (cases "get_current_active (data_tables t s)")
    case None
    then show ?thesis by (simp add: deactivated_def)
  next
    case (Some prev)
    then have p: "prev \<in> set (rows s)" "table_id prev = Some t"
      using current_active_stored by blast+
    from assms(1) have d: "distinct (map pk (rows s))" by (simp add: wf_db_def)
    from set_row_count [OF d p(1), of "prev\<lparr>active := False\<rparr>"
        "\<lambda>r. table_id r = Some t' \<and> active r"] p that
    show ?thesis using Some by (simp add: deactivated_def n_active_def)
  qed
  show "map (\<lambda>r. (pk r, table_id r)) (rows (deactivated t dr s))
          = map (\<lambda>r. (pk r, table_id r)) (rows s)"
  proof (cases "get_current_active (data_tables t s)")
    case None
    then show ?thesis by (simp add: deactivated_def)
  next
    case (Some prev)
    then have p: "prev \<in> set (rows s)" using current_active_stored by blast
    from assms(1) have d: "distinct (map pk (rows s))" by (simp add: wf_db_def)
    from set_row_keys [OF d p, of "prev\<lparr>active := False\<rparr>"] Some
    show ?thesis by (simp add: deactivated_def)
  qed
  show "next_pk (deactivated t dr s) = next_pk s"
    by (simp add: deactivated_def split: option.splits)
qed

lemma save_activates:
  assumes "wf_db s" and "attached x s" and "table_id x = Some t" and "active x"
    and "n_active t s = 0"
  shows "wf_db (snd (save x s))"
    and "n_active t (snd (save x s)) = 1"
    and "t' \<noteq> t \<Longrightarrow> n_active t' (snd (save x s)) = n_active t' s"
    and "fst (save x s) \<in> set (rows (snd (save x s)))"
    and "physical (snd (save x s)) = physical s"
    and "fst (save x s) = (if pk x = None then x\<lparr>pk := Some (next_pk s), created_at := now s\<rparr>
                           else x)"
proof -
  have all: "wf_db (snd (save x s)) \<and> n_active t (snd (save x s)) = 1
      \<and> (t' \<noteq> t \<longrightarrow> n_active t' (snd (save x s)) = n_active t' s)
      \<and> fst (save x s) \<in> set (rows (snd (save x s)))
      \<and> physical (snd (save x s)) = physical s
      \<and> fst (save x s) = (if pk x = None then x\<lparr>pk := Some (next_pk s), created_at := now s\<rparr>
                           else x)"
  proof (cases "pk x")
    case None
    have "\<forall>r \<in> set (rows s). pk r \<noteq> Some (next_pk s)"
      using assms(1) unfolding wf_db_def by fastforce
    moreover have "\<forall>r \<in> set (rows s). \<exists>i. pk r = Some i \<and> i < Suc (next_pk s)"
      using assms(1) unfolding wf_db_def by (meson less_Suc_eq)
    ultimately have "wf_db (snd (save x s))"
      using assms(1) None by (auto simp: save_unsaved wf_db_def)
    with None assms(3,4,5) show ?thesis
      by (simp add: save_unsaved n_active_def)
  next
    case (Some i)
    with assms(2) obtain r0 where r0: "r0 \<in> set (rows s)" "pk r0 = pk x"
      "table_id r0 = table_id x"
      by (auto simp: attached_def)
    have sv: "save x s = (x, s\<lparr>rows := set_row x (rows s)\<rparr>)"
      using save_stored [OF r0(1,2) assms(1)] .
    from assms(1) have d: "distinct (map pk (rows s))" by (simp add: wf_db_def)
    have na: "\<not> active r0"
    proof
      assume "active r0"
      with r0 assms(3) have "r0 \<in> set (filter (\<lambda>r. table_id r = Some t \<and> active r) (rows s))"
        by simp
      with assms(5) show False by (simp add: n_active_def)
    qed
    have w: "wf_db (s\<lparr>rows := set_row x (rows s)\<rparr>)"
      using wf_db_set_row [OF assms(1) r0(1), of x "physical s"] r0(2) by simp
    have c1: "n_active t (s\<lparr>rows := set_row x (rows s)\<rparr>) = 1"
      using set_row_count [OF d r0(1), of x "\<lambda>r. table_id r = Some t \<and> active r"]
        r0 na assms(3,4,5)
      by (simp add: n_active_def)
    have c2: "t' \<noteq> t \<longrightarrow> n_active t' (s\<lparr>rows := set_row x (rows s)\<rparr>) = n_active t' s"
      using set_row_count [OF d r0(1), of x "\<lambda>r. table_id r = Some t' \<and> active r"]
        r0 assms(3)
      by (auto simp: n_active_def)
    have m: "x \<in> set (set_row x (rows s))"
      using set_row_mem [OF r0(1)] r0(2) by simp
    from w c1 c2 m Some show ?thesis by (simp add: sv)
  qed
  from all show "wf_db (snd (save x s))" by blast
  from all show "n_active t (snd (save x s)) = 1" by blast
  from all show "t' \<noteq> t \<Longrightarrow> n_active t' (snd (save x s)) = n_active t' s" by blast
  from all show "fst (save x s) \<in> set (rows (snd (save x s)))" by blast
  from all show "physical (snd (save x s)) = physical s" by blast
  from all show "fst (save x s) = (if pk x = None
      then x\<lparr>pk := Some (next_pk s), created_at := now s\<rparr> else x)" by blast
qed

lemma activate_step:
  assumes "wf_db s" and "n_active t s \<le> 1" and "table_id self = Some t"
    and "attached self s"
  shows "wf_db (snd (save (self\<lparr>active := True\<rparr>) (deactivated t dr s)))"
    and "n_active t (snd (save (self\<lparr>active := True\<rparr>) (deactivated t dr s))) = 1"
    and "t' \<noteq> t \<Longrightarrow>
           n_active t' (snd (save (self\<lparr>active := True\<rparr>) (deactivated t dr s))) = n_active t' s"
proof -
  let ?s1 = "deactivated t dr s" and ?x = "self\<lparr>active := True\<rparr>"
  note d = deactivated_props [OF assms(1,2)]
  have a: "attached ?x ?s1"
    using assms(4) by (simp add: attached_keys d(4))
  note sv = save_activates [OF d(1) a _ _ d(2)]
  show "wf_db (snd (save ?x ?s1))"
    using sv(1) assms(3) by simp
  show "n_active t (snd (save ?x ?s1)) = 1"
    using sv(2) assms(3) by simp
  show "n_active t' (snd (save ?x ?s1)) = n_active t' s" if "t' \<noteq> t"
    using sv(3) [of t'] d(3) [of t'] that assms(3) by simp
qed

lemma retire_error_active:
  assumes "retire_error t dr s = Some e" and "n_active t s \<le> 1"
  shows "n_active t s = 1"
proof -
  from assms(1) have "get_current_active (data_tables t s) \<noteq> None"
    by (auto simp: retire_error_def split: if_splits option.splits)
  then have "n_active t s \<noteq> 0" by (simp add: current_active_None)
  with assms(2) show ?thesis by linarith
qed

lemma load_attached: "load g s = Some self \<Longrightarrow> attached self s"
proof (cases g)
  case (Saved i)
  assume "load g s = Some self"
  with Saved have "self \<in> set (rows s)"
    by (auto simp: load_def find_Some_iff)
  then show ?thesis by (auto simp: attached_def)
next
  case (Unsaved t name)
  assume "load g s = Some self"
  with Unsaved show ?thesis by (auto simp: load_def attached_def)
qed

lemma activate_call_cases:
  assumes "wf_db s" and "\<forall>t. n_active t s \<le> 1"
  shows "(call_table s c = None \<and> activate_call s c = s) \<or>
         (\<exists>self t. load (fst c) s = Some self \<and> table_id self = Some t \<and>
            call_table s c = Some t \<and>
            ((\<exists>e. retire_error t (snd c) s = Some e \<and> n_active t s = 1 \<and>
                  activate_call s c = s) \<or>
             (retire_error t (snd c) s = None \<and>
              activate_call s c
                = snd (save (self\<lparr>active := True\<rparr>) (deactivated t (snd c) s)))))"
proof (cases "load (fst c) s")
  case None
  then show ?thesis by (simp add: call_table_def activate_call_def)
next
  case (Some self)
  show ?thesis
  proof (cases "table_id self")
    case None
    then have "table self = None" by (simp add: table_id_def)
    with Some None show ?thesis
      by (simp add: call_table_def activate_call_def activate.simps atomic_def)
  next
    case t: (Some t)
    from assms(2) have le: "n_active t s \<le> 1" by blast
    note eq = activate_eq [OF assms(1) t, of "snd c"]
    show ?thesis
    proof (cases "retire_error t (snd c) s")
      case None
      with eq Some t show ?thesis
        by (simp add: call_table_def activate_call_def split: prod.splits)
    next
      case (Some e)
      from retire_error_active [OF Some le] have "n_active t s = 1" .
      with eq Some \<open>load (fst c) s = Some self\<close> t show ?thesis
        by (simp add: call_table_def activate_call_def)
    qed
  qed
qed

lemma activate_call_good:
  assumes "wf_db s" and "\<forall>t. n_active t s \<le> 1"
  shows "wf_db (activate_call s c)"
    and "\<forall>t. n_active t (activate_call s c) \<le> 1"
    and "\<forall>t. n_active t s = 1 \<longrightarrow> n_active t (activate_call s c) = 1"
    and "\<forall>t. call_table s c = Some t \<longrightarrow> n_active t (activate_call s c) = 1"
proof -
  have all: "wf_db (activate_call s c) \<and> (\<forall>t. n_active t (activate_call s c) \<le> 1)
      \<and> (\<forall>t. n_active t s = 1 \<longrightarrow> n_active t (activate_call s c) = 1)
      \<and> (\<forall>t. call_table s c = Some t \<longrightarrow> n_active t (activate_call s c) = 1)"
    using activate_call_cases [OF assms, of c]
  proof (elim disjE exE conjE)
    assume "call_table s c = None" and "activate_call s c = s"
    with assms show ?thesis by simp
  next
    fix self t e
    assume "call_table s c = Some t" and "n_active t s = 1" and "activate_call s c = s"
    with assms show ?thesis by simp
  next
    fix self t
    assume l: "load (fst c) s = Some self" and t: "table_id self = Some t"
      and ct: "call_table s c = Some t"
      and eq: "activate_call s c
                 = snd (save (self\<lparr>active := True\<rparr>) (deactivated t (snd c) s))"
    from l have a: "attached self s" by (rule load_attached)
    from assms(2) have le: "n_active t s \<le> 1" by blast
    note st = activate_step [OF assms(1) le t a]
    have one: "n_active t (activate_call s c) = 1" using st(2) eq by simp
    have other: "\<And>t'. t' \<noteq> t \<Longrightarrow> n_active t' (activate_call s c) = n_active t' s"
      using st(3) eq by simp
    have "\<forall>t'. n_active t' (activate_call s c) \<le> 1"
    proof
      fix t' show "n_active t' (activate_call s c) \<le> 1"
        using one other [of t'] assms(2) by (cases "t' = t") auto
    qed
    moreover have "\<forall>t'. n_active t' s = 1 \<longrightarrow> n_active t' (activate_call s c) = 1"
    proof
      fix t' show "n_active t' s = 1 \<longrightarrow> n_active t' (activate_call s c) = 1"
        using one other [of t'] by (cases "t' = t") auto
    qed
    ultimately show ?thesis using st(1) eq one ct by simp
  qed
  from all show "wf_db (activate_call s c)" by blast
  from all show "\<forall>t. n_active t (activate_call s c) \<le> 1" by blast
  from all show "\<forall>t. n_active t s = 1 \<longrightarrow> n_active t (activate_call s c) = 1" by blast
  from all show "\<forall>t. call_table s c = Some t \<longrightarrow> n_active t (activate_call s c) = 1" by blast
qed

lemma run_good:
  "wf_db s \<Longrightarrow> \<forall>t. n_active t s \<le> 1 \<Longrightarrow>
     wf_db (run s cs) \<and> (\<forall>t. n_active t (run s cs) \<le> 1)"
proof (induction cs arbitrary: s)
  case Nil
  then show ?case by simp
next
  case (Cons c cs)
  from activate_call_good(1,2) [OF Cons.prems, of c] Cons.IH show ?case by simp
qed

text \<open>
  The models of the example generations: those of generations 1 and 2 are synthesized;
  that of generation 3 is not, since \<open>make_index_name\<close> cannot encode its name.
\<close>

lemma model_error_gen1: "FIELD_TYPES s = registered \<Longrightarrow> model_error s gen1 = None"
  by (simp add: model_error_def get_model_def gen1_def tbl7_def registered_def
      field_class_def make_index_def make_index_name_def is_ascii_def
      create_model_class_def Let_def)

lemma model_error_gen2: "FIELD_TYPES s = registered \<Longrightarrow> model_error s gen2 = None"
  by (simp add: model_error_def get_model_def gen2_def tbl7_def registered_def
      field_class_def make_index_def make_index_name_def is_ascii_def
      create_model_class_def Let_def)

lemma model_error_gen3:
  "FIELD_TYPES s = registered \<Longrightarrow> model_error s gen3 = Some UnicodeEncodeError"
  by (simp add: model_error_def get_model_def gen3_def tbl7_def registered_def
      field_class_def make_index_def make_index_name_def is_ascii_def
      create_model_class_def Let_def)

text \<open>
  C1: from a well-formed database in which no logical table has two active generations
  (so from one with no active generation at all), after any sequence \<open>cs\<close> of
  \<open>activate\<close> calls and one more call \<open>c\<close>: no logical table has two active
  generations; a table that had its one active generation still has exactly one; the
  table of the generation that \<open>c\<close> is about has exactly one, whether the call
  returned or raised. The call is all or nothing: either it is the save of the target
  as active on the database in which the previous active generation has been
  deactivated and the table has no active generation, or, when retiring the previous
  generation raises, it raises that error and leaves the database as it was.
\<close>

theorem single_active_generation:
  assumes "wf_db s0" and "\<forall>t. n_active t s0 \<le> 1"
  shows "(\<forall>t. n_active t (activate_call (run s0 cs) c) \<le> 1)
       \<and> (\<forall>t. n_active t (run s0 cs) = 1 \<longrightarrow> n_active t (activate_call (run s0 cs) c) = 1)
       \<and> (\<forall>t. call_table (run s0 cs) c = Some t \<longrightarrow>
             n_active t (activate_call (run s0 cs) c) = 1)
       \<and> (\<forall>self t. load (fst c) (run s0 cs) = Some self \<and> table_id self = Some t \<longrightarrow>
             (case retire_error t (snd c) (run s0 cs) of
                None \<Rightarrow>
                  activate self (snd c) (run s0 cs)
                    = Inr (save (self\<lparr>active := True\<rparr>) (deactivated t (snd c) (run s0 cs)))
                  \<and> n_active t (deactivated t (snd c) (run s0 cs)) = 0
              | Some e \<Rightarrow> activate self (snd c) (run s0 cs) = Inl (e, run s0 cs)))"
proof -
  let ?s = "run s0 cs"
  from run_good [OF assms] have w: "wf_db ?s" and le: "\<forall>t. n_active t ?s \<le> 1"
    by blast+
  note g = activate_call_good [OF w le, of c]
  have "\<forall>self t. load (fst c) ?s = Some self \<and> table_id self = Some t \<longrightarrow>
          (case retire_error t (snd c) ?s of
             None \<Rightarrow>
               activate self (snd c) ?s
                 = Inr (save (self\<lparr>active := True\<rparr>) (deactivated t (snd c) ?s))
               \<and> n_active t (deactivated t (snd c) ?s) = 0
           | Some e \<Rightarrow> activate self (snd c) ?s = Inl (e, ?s))"
  proof (intro allI impI)
    fix self t
    assume h: "load (fst c) ?s = Some self \<and> table_id self = Some t"
    from le have le': "n_active t ?s \<le> 1" by blast
    from h have t: "table_id self = Some t" by blast
    show "case retire_error t (snd c) ?s of
             None \<Rightarrow>
               activate self (snd c) ?s
                 = Inr (save (self\<lparr>active := True\<rparr>) (deactivated t (snd c) ?s))
               \<and> n_active t (deactivated t (snd c) ?s) = 0
           | Some e \<Rightarrow> activate self (snd c) ?s = Inl (e, ?s)"
      using activate_eq [OF w t, of "snd c"] deactivated_props(2) [OF w le', of "snd c"]
      by (simp split: option.splits)
  qed
  with g(2,3,4) show ?thesis by blast
qed

theorem single_active_generation_witness:
  "wf_db db0 \<and> (\<forall>t. n_active t db0 \<le> 1) \<and> n_active 7 db0 = 0 \<and>
   n_active 7 (activate_call (run db0 [(Unsaved tbl7 ''data_ds_t_aaaaaaaa'', False)])
     (Unsaved tbl7 ''data_ds_t_bbbbbbbb'', False)) = 1 \<and>
   map (\<lambda>r. (pk r, active r))
     (rows (activate_call (run db0 [(Unsaved tbl7 ''data_ds_t_aaaaaaaa'', False)])
        (Unsaved tbl7 ''data_ds_t_bbbbbbbb'', False)))
     = [(Some 1, False), (Some 2, True)] \<and>
   wf_db db4 \<and> (\<forall>t. n_active t db4 \<le> 1) \<and>
   activate \<lparr>pk = None, created_at = 0, table = Some tbl7,
             db_table_name = ''data_ds_t_bbbbbbbb'', active = False\<rparr> True db4
     = Inl (UnicodeEncodeError, db4) \<and>
   n_active 7 (activate_call (run db4 []) (Unsaved tbl7 ''data_ds_t_bbbbbbbb'', True)) = 1"
proof -
  let ?a = "(Unsaved tbl7 ''data_ds_t_aaaaaaaa'', False)"
  let ?b = "(Unsaved tbl7 ''data_ds_t_bbbbbbbb'', False)"
  let ?c = "(Unsaved tbl7 ''data_ds_t_bbbbbbbb'', True)"
  let ?new = "\<lparr>pk = None, created_at = 0, table = Some tbl7,
               db_table_name = ''data_ds_t_bbbbbbbb'', active = False\<rparr>"
  have w0: "wf_db db0" by (simp add: wf_db_def db0_def)
  have z0: "\<forall>t. n_active t db0 \<le> 1" by (simp add: n_active_def db0_def)
  have c0: "call_table (run db0 [?a]) ?b = Some 7"
    by (simp add: call_table_def load_def table_id_def tbl7_def)
  have r0: "map (\<lambda>r. (pk r, active r)) (rows (activate_call (run db0 [?a]) ?b))
              = [(Some 1, False), (Some 2, True)]"
    by code_simp
  from single_active_generation [OF w0 z0, of "[?a]" ?b] c0
  have n0: "n_active 7 (activate_call (run db0 [?a]) ?b) = 1"
    by blast
  have w4: "wf_db db4" by (simp add: wf_db_def db4_def gen3_def)
  have z4: "\<forall>t. n_active t db4 \<le> 1" by (simp add: n_active_def db4_def)
  have l4: "load (fst ?c) (run db4 []) = Some ?new \<and> table_id ?new = Some 7"
    by (simp add: load_def table_id_def tbl7_def)
  have c4: "call_table (run db4 []) ?c = Some 7"
    by (simp add: call_table_def load_def table_id_def tbl7_def)
  have "get_current_active (data_tables 7 db4) = Some gen3"
    by (simp add: get_current_active_def qs_active_def data_tables_def db4_def gen3_def
        table_id_def tbl7_def)
  moreover have "FIELD_TYPES db4 = registered" by (simp add: db4_def)
  ultimately have e4: "retire_error 7 (snd ?c) (run db4 []) = Some UnicodeEncodeError"
    by (simp add: retire_error_def model_error_gen3)
  from single_active_generation [OF w4 z4, of "[]" ?c] l4 c4 e4
  have "activate ?new True db4 = Inl (UnicodeEncodeError, db4)"
    and "n_active 7 (activate_call (run db4 []) ?c) = 1"
    by auto
  with w0 z0 r0 n0 w4 z4 show ?thesis by (simp add: n_active_def db0_def)
qed

text \<open>
  C2: deleting a stored generation whose \<open>active\<close> flag is true raises the
  \<open>RuntimeError\<close> of the \<open>pre_delete\<close> receiver; the receiver raises on the
  database as it was, before the row is deleted and before the cleanup of
  \<open>post_delete\<close>, and the database after the failed call is that same database.
\<close>

theorem delete_active_rejected:
  assumes "active instance" and "pk instance \<noteq> None"
  shows "prevent_active_data_table_deletion instance s = Inl (RuntimeError, s)
       \<and> delete instance s = Inl (RuntimeError, s)"
  using assms
  by (simp add: delete_def prevent_active_data_table_deletion_def atomic_def)

theorem delete_active_rejected_witness:
  "active gen1 \<and> pk gen1 \<noteq> None \<and> gen1 \<in> set (rows db2) \<and>
   delete gen1 db2 = Inl (RuntimeError, db2) \<and>
   delete gen2 db2 = Inr ((), db2\<lparr>rows := [gen1], physical := {''data_ds_t_aaaaaaaa''}\<rparr>)"
proof -
  have a: "active gen1" by (simp add: gen1_def)
  have p: "pk gen1 \<noteq> None" by (simp add: gen1_def)
  have f: "FIELD_TYPES db2 = registered" by (simp add: db2_def)
  have d: "delete gen2 db2 =
     Inr ((), db2\<lparr>rows := [gen1], physical := {''data_ds_t_aaaaaaaa''}\<rparr>)"
    using model_error_gen2 [OF f]
    by (simp add: delete_def prevent_active_data_table_deletion_def atomic_def
        clean_associated_data_base_table_def delete_data_table_eq model_error_frame)
      (simp add: gen1_def gen2_def db2_def insert_Diff_if)
  from delete_active_rejected [OF a p, of db2] a p d show ?thesis
    by (simp add: db2_def)
qed

lemma deactivated_wf: "wf_db s \<Longrightarrow> wf_db (deactivated t dr s)"
proof (cases "get_current_active (data_tables t s)")
  case None
  assume "wf_db s"
  with None show ?thesis by (simp add: deactivated_def)
next
  case (Some prev)
  assume w: "wf_db s"
  from Some have "prev \<in> set (rows s)" using current_active_stored by blast
  from wf_db_set_row [OF w this, of "prev\<lparr>active := False\<rparr>"] Some
  show ?thesis by (simp add: deactivated_def)
qed

lemma sole_active_current:
  assumes "n_active t s \<le> 1" and "g \<in> set (rows s)" and "active g"
    and "table_id g = Some t"
  shows "get_current_active (data_tables t s) = Some g"
proof -
  let ?P = "\<lambda>r. table_id r = Some t \<and> active r"
  from assms(2,3,4) have "g \<in> set (filter ?P (rows s))" by simp
  then have "length (filter ?P (rows s)) \<noteq> 0" by force
  with assms(1) have "length (filter ?P (rows s)) = 1" unfolding n_active_def by linarith
  from filter_singleton [OF this assms(2)] assms(3,4) have "filter ?P (rows s) = [g]"
    by simp
  then show ?thesis
    by (simp add: get_current_active_def qs_active_def data_tables_def)
qed

lemma candidate_props:
  assumes "wf_db s" and "m \<in> set (qs_inactive (exclude_id (pk g) (data_tables t s)))"
  shows "m \<in> set (rows s) \<and> table_id m = Some t \<and> \<not> active m \<and> pk m \<noteq> pk g"
proof (cases "pk g")
  case None
  from assms(2) None have m: "m \<in> set (rows s)" "table_id m = Some t" "\<not> active m"
    by (auto simp: qs_inactive_def exclude_id_def data_tables_def)
  from assms(1) m(1) have "\<exists>i. pk m = Some i" unfolding wf_db_def by metis
  with m None show ?thesis by auto
next
  case (Some i)
  with assms(2) show ?thesis
    by (auto simp: qs_inactive_def exclude_id_def data_tables_def)
qed

lemma candidate_mem:
  assumes "r \<in> set (rows s)" and "table_id r = Some t" and "\<not> active r"
    and "pk r \<noteq> pk g"
  shows "r \<in> set (qs_inactive (exclude_id (pk g) (data_tables t s)))"
  using assms
  by (cases "pk g") (auto simp: qs_inactive_def exclude_id_def data_tables_def)

text \<open>
  \<open>deactivate\<close> with \<open>activate_most_recent\<close> on an object whose flag is set, when
  another inactive generation \<open>m\<close> is found: the nested \<open>activate\<close> of \<open>m\<close>, all or
  nothing, and the object \<open>self\<close> returned as it was.
\<close>

lemma deactivate_most_recent_eq:
  assumes "wf_db s" and "active g" and "table_id g = Some t"
    and "most_recent (qs_inactive (exclude_id (pk g) (data_tables t s))) = Some m"
  shows "deactivate g dr True s =
           (case retire_error t dr s of
              Some e \<Rightarrow> Inl (e, s)
            | None \<Rightarrow> Inr (g, snd (save (m\<lparr>active := True\<rparr>) (deactivated t dr s))))"
proof -
  from assms(3) obtain T where T: "table g = Some T" "table_pk T = t"
    by (auto simp: table_id_Some)
  from assms(4) have "m \<in> set (qs_inactive (exclude_id (pk g) (data_tables t s)))"
    by (rule most_recent_in)
  from candidate_props [OF assms(1) this] have tm: "table_id m = Some t" by blast
  from activate_eq [OF assms(1) tm, of dr] assms(2,4) T show ?thesis
    by (simp add: deactivate.simps [of g dr] atomic_def split: option.splits prod.splits)
qed

text \<open>
  C5, as stated, fails: generation 3 is active and its table has the other, inactive
  generation 2, but with a drop requested \<open>deactivate\<close> with \<open>activate_most_recent\<close>
  raises \<open>UnicodeEncodeError\<close> (from \<open>make_index_name\<close> inside \<open>get_model\<close>, on
  retiring generation 3) and the transaction leaves generation 3 the active one.
\<close>

theorem deactivate_most_recent_counterexample:
  "gen3 \<in> set (rows db3) \<and> active gen3 \<and> table_id gen3 = Some 7 \<and>
   qs_inactive (exclude_id (pk gen3) (data_tables 7 db3)) = [gen2] \<and>
   deactivate gen3 True True db3 = Inl (UnicodeEncodeError, db3) \<and>
   filter (\<lambda>r. table_id r = Some 7 \<and> active r) (rows db3) = [gen3]"
proof -
  have w: "wf_db db3" by (simp add: wf_db_def db3_def gen3_def gen2_def)
  have a: "active gen3" by (simp add: gen3_def)
  have t: "table_id gen3 = Some 7" by (simp add: gen3_def table_id_def tbl7_def)
  have c: "qs_inactive (exclude_id (pk gen3) (data_tables 7 db3)) = [gen2]"
    by (simp add: qs_inactive_def exclude_id_def data_tables_def db3_def gen3_def gen2_def
        table_id_def tbl7_def)
  then have m: "most_recent (qs_inactive (exclude_id (pk gen3) (data_tables 7 db3))) = Some gen2"
    by simp
  have "get_current_active (data_tables 7 db3) = Some gen3"
    by (simp add: get_current_active_def qs_active_def data_tables_def db3_def gen3_def
        gen2_def table_id_def tbl7_def)
  moreover have "FIELD_TYPES db3 = registered" by (simp add: db3_def)
  ultimately have e: "retire_error 7 True db3 = Some UnicodeEncodeError"
    by (simp add: retire_error_def model_error_gen3)
  have d: "deactivate gen3 True True db3 = Inl (UnicodeEncodeError, db3)"
    using deactivate_most_recent_eq [OF w a t m, of True] e by simp
  have f: "filter (\<lambda>r. table_id r = Some 7 \<and> active r) (rows db3) = [gen3]"
    by (simp add: db3_def gen3_def gen2_def table_id_def tbl7_def)
  from a t c d f show ?thesis by (simp add: db3_def)
qed

text \<open>
  C5, amended: let \<open>g\<close> be a generation of the logical table \<open>t\<close> whose \<open>active\<close>
  flag is set, the table having at least one other inactive generation. Then
  \<open>deactivate\<close> with \<open>activate_most_recent\<close> picks an other inactive generation \<open>m\<close>
  of \<open>t\<close> that no such generation is younger than. Unless a drop is requested and the
  model of the table's current active generation cannot be synthesized, it activates
  \<open>m\<close> and returns with the object \<open>g\<close> as it was (lines 512 to 515 are not run on
  it); the row of the generation that was active is deactivated (and its physical table
  dropped, if requested) by the nested \<open>activate\<close>; and if the table had no second
  active generation, the activated \<open>m\<close> is its only active generation afterwards.
  Otherwise the call raises the error of the synthesis and leaves the database as it
  was.
\<close>

theorem deactivate_activates_most_recent:
  assumes "wf_db s" and "active g" and "table_id g = Some t"
    and "qs_inactive (exclude_id (pk g) (data_tables t s)) \<noteq> []"
  shows "\<exists>m. most_recent (qs_inactive (exclude_id (pk g) (data_tables t s))) = Some m
       \<and> m \<in> set (rows s) \<and> table_id m = Some t \<and> \<not> active m \<and> pk m \<noteq> pk g
       \<and> (\<forall>r \<in> set (rows s). table_id r = Some t \<and> \<not> active r \<and> pk r \<noteq> pk g
             \<longrightarrow> created_at r \<le> created_at m)
       \<and> (case retire_error t dr s of
             Some e \<Rightarrow> deactivate g dr True s = Inl (e, s)
           | None \<Rightarrow>
               (\<exists>s'. deactivate g dr True s = Inr (g, s')
                 \<and> m\<lparr>active := True\<rparr> \<in> set (rows s')
                 \<and> (n_active t s \<le> 1 \<longrightarrow>
                      filter (\<lambda>r. table_id r = Some t \<and> active r) (rows s')
                        = [m\<lparr>active := True\<rparr>])
                 \<and> (\<forall>prev. get_current_active (data_tables t s) = Some prev \<longrightarrow>
                      prev\<lparr>active := False\<rparr> \<in> set (rows s')
                      \<and> physical s' = (if dr then physical s - {db_table_name prev}
                                       else physical s))))"
proof -
  let ?cands = "qs_inactive (exclude_id (pk g) (data_tables t s))"
  from assms(4) obtain m where mr: "most_recent ?cands = Some m"
    by (cases "most_recent ?cands") (auto simp: most_recent_None)
  then have "m \<in> set ?cands" by (rule most_recent_in)
  from candidate_props [OF assms(1) this]
  have m: "m \<in> set (rows s)" "table_id m = Some t" "\<not> active m" "pk m \<noteq> pk g"
    by blast+
  have younger: "\<forall>r \<in> set (rows s). table_id r = Some t \<and> \<not> active r \<and> pk r \<noteq> pk g
                   \<longrightarrow> created_at r \<le> created_at m"
  proof (intro ballI impI)
    fix r assume "r \<in> set (rows s)" and "table_id r = Some t \<and> \<not> active r \<and> pk r \<noteq> pk g"
    then have "r \<in> set ?cands" using candidate_mem by blast
    with mr show "created_at r \<le> created_at m" by (rule most_recent_max)
  qed
  let ?m' = "m\<lparr>active := True\<rparr>"
  let ?s1 = "deactivated t dr s"
  let ?s' = "snd (save ?m' ?s1)"
  note eq = deactivate_most_recent_eq [OF assms(1,2,3) mr, of dr]
  from assms(1) have dist: "distinct (map pk (rows s))" by (simp add: wf_db_def)
  have w1: "wf_db ?s1" using assms(1) by (rule deactivated_wf)
  have other: "pk prev \<noteq> pk m" if "get_current_active (data_tables t s) = Some prev" for prev
  proof
    assume e: "pk prev = pk m"
    from that have p: "prev \<in> set (rows s)" "active prev"
      using current_active_stored by blast+
    from dist have "inj_on pk (set (rows s))" by (simp add: distinct_map)
    with p(1) m(1) e have "prev = m" by (auto dest: inj_onD)
    with p(2) m(3) show False by simp
  qed
  have m_in: "m \<in> set (rows ?s1)"
  proof (cases "get_current_active (data_tables t s)")
    case None
    with m(1) show ?thesis by (simp add: deactivated_def)
  next
    case (Some prev)
    from set_row_other [OF m(1), of "prev\<lparr>active := False\<rparr>"] other [OF Some] Some
    show ?thesis by (simp add: deactivated_def)
  qed
  have sv: "save ?m' ?s1 = (?m', ?s1\<lparr>rows := set_row ?m' (rows ?s1)\<rparr>)"
    using save_stored [OF m_in _ w1, of ?m'] by simp
  have m_in': "?m' \<in> set (rows ?s')"
    using set_row_mem [OF m_in, of ?m'] by (simp add: sv)
  have only: "filter (\<lambda>r. table_id r = Some t \<and> active r) (rows ?s') = [?m']"
    if le: "n_active t s \<le> 1"
  proof -
    have att: "attached m s" using m(1) by (auto simp: attached_def)
    from activate_step(2) [OF assms(1) le m(2) att, of dr]
    have "length (filter (\<lambda>r. table_id r = Some t \<and> active r) (rows ?s')) = 1"
      by (simp add: n_active_def)
    from filter_singleton [OF this m_in'] m(2) show ?thesis by simp
  qed
  have prev: "prev\<lparr>active := False\<rparr> \<in> set (rows ?s')
      \<and> physical ?s' = (if dr then physical s - {db_table_name prev} else physical s)"
    if cur: "get_current_active (data_tables t s) = Some prev" for prev
  proof -
    from cur have p: "prev \<in> set (rows s)" using current_active_stored by blast
    have s1: "?s1 = s\<lparr>rows := set_row (prev\<lparr>active := False\<rparr>) (rows s),
                      physical := (if dr then physical s - {db_table_name prev}
                                   else physical s)\<rparr>"
      using cur by (simp add: deactivated_def)
    have "prev\<lparr>active := False\<rparr> \<in> set (rows ?s1)"
      using set_row_mem [OF p, of "prev\<lparr>active := False\<rparr>"] by (simp add: s1)
    from set_row_other [OF this, of ?m'] other [OF cur]
    have 1: "prev\<lparr>active := False\<rparr> \<in> set (rows ?s')" by (simp add: sv)
    have p1: "physical ?s' = physical ?s1" by (simp add: sv)
    have p2: "physical ?s1 = (if dr then physical s - {db_table_name prev} else physical s)"
      using cur by (simp add: deactivated_def)
    from 1 p1 p2 show ?thesis by simp
  qed
  have outcome: "case retire_error t dr s of
             Some e \<Rightarrow> deactivate g dr True s = Inl (e, s)
           | None \<Rightarrow>
               (\<exists>s'. deactivate g dr True s = Inr (g, s')
                 \<and> ?m' \<in> set (rows s')
                 \<and> (n_active t s \<le> 1 \<longrightarrow>
                      filter (\<lambda>r. table_id r = Some t \<and> active r) (rows s') = [?m'])
                 \<and> (\<forall>prev. get_current_active (data_tables t s) = Some prev \<longrightarrow>
                      prev\<lparr>active := False\<rparr> \<in> set (rows s')
                      \<and> physical s' = (if dr then physical s - {db_table_name prev}
                                       else physical s)))"
  proof (cases "retire_error t dr s")
    case (Some e)
    with eq show ?thesis by simp
  next
    case None
    with eq have "deactivate g dr True s = Inr (g, ?s')" by simp
    with m_in' only prev None show ?thesis by auto
  qed
  from mr m younger outcome show ?thesis by blast
qed

theorem deactivate_activates_most_recent_witness:
  "wf_db db2 \<and> active gen1 \<and> table_id gen1 = Some 7 \<and>
   qs_inactive (exclude_id (pk gen1) (data_tables 7 db2)) \<noteq> [] \<and>
   retire_error 7 True db2 = None \<and> n_active 7 db2 \<le> 1 \<and>
   (\<exists>s'. deactivate gen1 True True db2 = Inr (gen1, s') \<and>
      filter (\<lambda>r. table_id r = Some 7 \<and> active r) (rows s') = [gen2\<lparr>active := True\<rparr>] \<and>
      gen1\<lparr>active := False\<rparr> \<in> set (rows s') \<and>
      physical s' = {''data_ds_t_bbbbbbbb''})"
proof -
  have w: "wf_db db2" by (simp add: wf_db_def db2_def gen1_def gen2_def)
  have n: "n_active 7 db2 \<le> 1"
    by (simp add: n_active_def db2_def gen1_def gen2_def table_id_def tbl7_def)
  have a: "active gen1" by (simp add: gen1_def)
  have t: "table_id gen1 = Some 7" by (simp add: gen1_def table_id_def tbl7_def)
  have c: "qs_inactive (exclude_id (pk gen1) (data_tables 7 db2)) = [gen2]"
    by (simp add: qs_inactive_def exclude_id_def data_tables_def db2_def gen1_def gen2_def
        table_id_def tbl7_def)
  then have c': "qs_inactive (exclude_id (pk gen1) (data_tables 7 db2)) \<noteq> []" by simp
  have cur: "get_current_active (data_tables 7 db2) = Some gen1"
    by (simp add: get_current_active_def qs_active_def data_tables_def db2_def gen1_def
        gen2_def table_id_def tbl7_def)
  moreover have "FIELD_TYPES db2 = registered" by (simp add: db2_def)
  ultimately have e: "retire_error 7 True db2 = None"
    by (simp add: retire_error_def model_error_gen1)
  have ph: "physical db2 - {db_table_name gen1} = {''data_ds_t_bbbbbbbb''}"
    by (simp add: db2_def gen1_def insert_Diff_if)
  from deactivate_activates_most_recent [OF w a t c', of True] c e n cur ph
  have "\<exists>s'. deactivate gen1 True True db2 = Inr (gen1, s') \<and>
      filter (\<lambda>r. table_id r = Some 7 \<and> active r) (rows s') = [gen2\<lparr>active := True\<rparr>] \<and>
      gen1\<lparr>active := False\<rparr> \<in> set (rows s') \<and>
      physical s' = {''data_ds_t_bbbbbbbb''}"
    by auto
  with w a t c' e n show ?thesis by blast
qed

lemma deactivate_no_candidate_eq:
  assumes "qs_inactive (exclude_id (pk g) (data_tables t s)) = []" and "table_id g = Some t"
  shows "deactivate g dr True s = deactivate g dr False s"
proof -
  from assms(2) obtain T where "table g = Some T" "table_pk T = t"
    by (auto simp: table_id_Some)
  with assms(1) show ?thesis by (simp add: deactivate.simps [of g dr])
qed

text \<open>
  C10, as stated, fails: generation 3 is the active and only generation of its table,
  but with a drop requested \<open>deactivate\<close> with \<open>activate_most_recent\<close> raises
  \<open>UnicodeEncodeError\<close> (from \<open>make_index_name\<close> inside \<open>get_model\<close>, which line
  518 calls before the \<open>try\<close>); the save of line 513 is rolled back and the table
  still has its active generation.
\<close>

theorem deactivate_falls_through_counterexample:
  "gen3 \<in> set (rows db4) \<and> active gen3 \<and> table_id gen3 = Some 7 \<and>
   qs_inactive (exclude_id (pk gen3) (data_tables 7 db4)) = [] \<and>
   deactivate gen3 True True db4 = Inl (UnicodeEncodeError, db4) \<and>
   n_active 7 db4 = 1"
proof -
  have w: "wf_db db4" by (simp add: wf_db_def db4_def gen3_def)
  have g: "gen3 \<in> set (rows db4)" by (simp add: db4_def)
  have a: "active gen3" by (simp add: gen3_def)
  have t: "table_id gen3 = Some 7" by (simp add: gen3_def table_id_def tbl7_def)
  have c: "qs_inactive (exclude_id (pk gen3) (data_tables 7 db4)) = []"
    by (simp add: qs_inactive_def exclude_id_def data_tables_def db4_def gen3_def)
  have f: "FIELD_TYPES db4 = registered" by (simp add: db4_def)
  have d: "deactivate gen3 True True db4 = Inl (UnicodeEncodeError, db4)"
    using deactivate_no_candidate_eq [OF c t, of True] deactivate_stored [OF w g, of True]
      model_error_gen3 [OF f]
    by simp
  have n: "n_active 7 db4 = 1"
    by (simp add: n_active_def db4_def gen3_def table_id_def tbl7_def)
  from g a t c d n show ?thesis by blast
qed

text \<open>
  C10, amended: let \<open>g\<close> be a stored, active generation of the logical table \<open>t\<close>,
  the table having no second active generation and no other inactive generation. Then
  \<open>deactivate\<close> with \<open>activate_most_recent\<close> does the plain deactivation. Unless a
  drop is requested and the model of \<open>g\<close> cannot be synthesized, \<open>g\<close> is marked
  inactive in memory and in its row, its physical table is dropped if requested, and the
  logical table is left with no active generation. Otherwise the call raises the error
  of the synthesis and leaves the database as it was, with \<open>g\<close> still active.
\<close>

theorem deactivate_falls_through:
  assumes "wf_db s" and "n_active t s \<le> 1"
    and "g \<in> set (rows s)" and "active g" and "table_id g = Some t"
    and "qs_inactive (exclude_id (pk g) (data_tables t s)) = []"
  shows "case (if dr then model_error s g else None) of
           Some e \<Rightarrow> deactivate g dr True s = Inl (e, s)
         | None \<Rightarrow>
             (\<exists>s'. deactivate g dr True s = Inr (g\<lparr>active := False\<rparr>, s')
               \<and> rows s' = set_row (g\<lparr>active := False\<rparr>) (rows s)
               \<and> g\<lparr>active := False\<rparr> \<in> set (rows s')
               \<and> physical s' = (if dr then physical s - {db_table_name g} else physical s)
               \<and> n_active t s' = 0)"
proof (cases "if dr then model_error s g else None")
  case (Some e)
  with deactivate_no_candidate_eq [OF assms(6,5), of dr] deactivate_stored [OF assms(1,3), of dr]
  show ?thesis by simp
next
  case None
  let ?g' = "g\<lparr>active := False\<rparr>"
  let ?s' = "s\<lparr>rows := set_row ?g' (rows s),
               physical := (if dr then physical s - {db_table_name g} else physical s)\<rparr>"
  from None deactivate_no_candidate_eq [OF assms(6,5), of dr]
    deactivate_stored [OF assms(1,3), of dr]
  have 1: "deactivate g dr True s = Inr (?g', ?s')" by simp
  have cur: "get_current_active (data_tables t s) = Some g"
    using sole_active_current [OF assms(2,3,4,5)] .
  then have "?s' = deactivated t dr s" by (simp add: deactivated_def)
  with deactivated_props(2) [OF assms(1,2), of dr] have 2: "n_active t ?s' = 0" by simp
  have 3: "?g' \<in> set (rows ?s')"
    using set_row_mem [OF assms(3), of ?g'] by simp
  from 1 2 3 None show ?thesis by simp
qed

theorem deactivate_falls_through_witness:
  "wf_db db1 \<and> n_active 7 db1 \<le> 1 \<and> gen1 \<in> set (rows db1) \<and> active gen1 \<and>
   table_id gen1 = Some 7 \<and> qs_inactive (exclude_id (pk gen1) (data_tables 7 db1)) = [] \<and>
   model_error db1 gen1 = None \<and>
   (\<exists>s'. deactivate gen1 True True db1 = Inr (gen1\<lparr>active := False\<rparr>, s') \<and>
      rows s' = [gen1\<lparr>active := False\<rparr>] \<and> physical s' = {} \<and> n_active 7 s' = 0)"
proof -
  have w: "wf_db db1" by (simp add: wf_db_def db1_def gen1_def)
  have n: "n_active 7 db1 \<le> 1" by (simp add: n_active_def db1_def)
  have g: "gen1 \<in> set (rows db1)" by (simp add: db1_def)
  have a: "active gen1" by (simp add: gen1_def)
  have t: "table_id gen1 = Some 7" by (simp add: gen1_def table_id_def tbl7_def)
  have c: "qs_inactive (exclude_id (pk gen1) (data_tables 7 db1)) = []"
    by (simp add: qs_inactive_def exclude_id_def data_tables_def db1_def gen1_def)
  have "FIELD_TYPES db1 = registered" by (simp add: db1_def)
  then have e: "model_error db1 gen1 = None" by (rule model_error_gen1)
  have r: "set_row (gen1\<lparr>active := False\<rparr>) (rows db1) = [gen1\<lparr>active := False\<rparr>]"
    by (simp add: set_row_def db1_def)
  have p: "physical db1 - {db_table_name gen1} = {}"
    by (simp add: db1_def gen1_def)
  from deactivate_falls_through [OF w n g a t c, of True] e r p
  have "\<exists>s'. deactivate gen1 True True db1 = Inr (gen1\<lparr>active := False\<rparr>, s') \<and>
      rows s' = [gen1\<lparr>active := False\<rparr>] \<and> physical s' = {} \<and> n_active 7 s' = 0"
    by auto
  with w n g a t c e show ?thesis by blast
qed

end
